theory Spec2Isabelle
  imports Main "HOL-Library.Word"
begin

section \<open>Strings of the host language\<close>

text \<open>
  A string of the source language is a finite sequence of 16-bit code units. The
  functions below compare code units only, so the model is exact for every string.
  \<open>lit\<close> writes an ASCII literal as such a sequence.
\<close>

type_synonym jschar = "16 word"
type_synonym jsstring = "jschar list"

definition lit :: "string \<Rightarrow> jsstring" where
  "lit s = map of_char s"

section \<open>The selection modal (src/selectableItem.ts)\<close>

text \<open>
  \<open>interface SelectableItem { name: string; [key: string]: any }\<close>: a record with the
  mandatory field \<open>name\<close>; the further fields of a subtype are the record's extension.
\<close>

record selectable_item =
  name :: jsstring

text \<open>
  One rendered row: its text content and whether it carries the class \<open>is-focused\<close>.
\<close>

record item_element =
  textContent :: jsstring
  is_focused :: bool

text \<open>
  The fields of \<open>SelectableModal\<close>. The callback is a parameter of the caller whose only
  contact with the modal is to be called with an item, so the state records the
  arguments it was called with, in order (\<open>callbackCalls\<close>). \<open>isOpen\<close> and \<open>heading\<close> stand
  for the part of the host's \<open>Modal\<close> that the class touches: whether the modal is shown
  and the \<open>h4\<close> element of its content.
\<close>

record 'b selectable_modal =
  items :: "'b selectable_item_scheme list"
  modalTitle :: jsstring
  activeIndex :: int
  hoveredIndex :: "int option"
  itemElements :: "item_element list"
  callbackCalls :: "'b selectable_item_scheme list"
  isOpen :: bool
  heading :: "jsstring option"

text \<open>The constructor (line 38): field initialisers and the three assignments.\<close>

definition new_SelectableModal ::
  "'b selectable_item_scheme list \<Rightarrow> jsstring \<Rightarrow> 'b selectable_modal" where
  "new_SelectableModal its title =
     \<lparr> items = its, modalTitle = title, activeIndex = 0, hoveredIndex = None,
       itemElements = [], callbackCalls = [], isOpen = False, heading = None \<rparr>"

text \<open>
  \<open>focusItem(index?)\<close> (line 175): \<open>undefined\<close> becomes \<open>-1\<close>; the element whose position
  equals the index gets the class, every other element loses it.
\<close>

definition focusItem :: "'b selectable_modal \<Rightarrow> int option \<Rightarrow> 'b selectable_modal" where
  "focusItem m idx =
     (let index = (case idx of None \<Rightarrow> - 1 | Some i \<Rightarrow> i)
      in m\<lparr> itemElements :=
              map (\<lambda>(i, el). el\<lparr> is_focused := (int i = index) \<rparr>)
                  (enumerate 0 (itemElements m)) \<rparr>)"

text \<open>\<open>onOpen\<close> (line 63), without the registration of the key handlers, which are
  \<open>onArrowUp\<close>, \<open>onArrowDown\<close> and \<open>onEnter\<close> below.\<close>

definition onOpen :: "'b selectable_modal \<Rightarrow> 'b selectable_modal" where
  "onOpen m =
     (let m1 = m\<lparr> heading := Some (modalTitle m),
                  itemElements :=
                    map (\<lambda>item. \<lparr> textContent = name item, is_focused = False \<rparr>) (items m) \<rparr>
      in if length (itemElements m1) > 0
         then focusItem (m1\<lparr> activeIndex := 0 \<rparr>) (Some 0)
         else m1)"

text \<open>\<open>onClose\<close> (line 117): the content is emptied, \<open>activeIndex\<close> is kept.\<close>

definition onClose :: "'b selectable_modal \<Rightarrow> 'b selectable_modal" where
  "onClose m = m\<lparr> heading := None, itemElements := [], hoveredIndex := None \<rparr>"

text \<open>The host's \<open>Modal.open\<close> and \<open>Modal.close\<close>: show or hide, then run the hook.\<close>

definition open_modal :: "'b selectable_modal \<Rightarrow> 'b selectable_modal" where
  "open_modal m = onOpen (m\<lparr> isOpen := True \<rparr>)"

definition close_modal :: "'b selectable_modal \<Rightarrow> 'b selectable_modal" where
  "close_modal m = onClose (m\<lparr> isOpen := False \<rparr>)"

text \<open>\<open>navigateItems(direction)\<close> (line 129).\<close>

definition navigateItems :: "'b selectable_modal \<Rightarrow> int \<Rightarrow> 'b selectable_modal" where
  "navigateItems m direction =
     (if length (itemElements m) = 0 then m
      else
        let m1 = (case hoveredIndex m of
                    Some h \<Rightarrow> m\<lparr> activeIndex := h, hoveredIndex := None \<rparr>
                  | None \<Rightarrow> m);
            newIndex = activeIndex m1 + direction;
            m2 = (if newIndex < 0
                  then m1\<lparr> activeIndex := int (length (itemElements m1)) - 1 \<rparr>
                  else if newIndex \<ge> int (length (itemElements m1))
                  then m1\<lparr> activeIndex := 0 \<rparr>
                  else m1\<lparr> activeIndex := newIndex \<rparr>)
        in focusItem m2 (Some (activeIndex m2)))"

text \<open>\<open>handleMouseOver(index)\<close> (line 155) and \<open>handleMouseLeave()\<close> (line 163).\<close>

definition handleMouseOver :: "'b selectable_modal \<Rightarrow> int \<Rightarrow> 'b selectable_modal" where
  "handleMouseOver m index = focusItem (m\<lparr> hoveredIndex := Some index \<rparr>) (Some index)"

definition handleMouseLeave :: "'b selectable_modal \<Rightarrow> 'b selectable_modal" where
  "handleMouseLeave m = focusItem (m\<lparr> hoveredIndex := None \<rparr>) None"

text \<open>\<open>selectItem(index)\<close> (line 195): the callback is called, then the modal closes;
  an index outside the items does nothing.\<close>

definition selectItem :: "'b selectable_modal \<Rightarrow> int \<Rightarrow> 'b selectable_modal" where
  "selectItem m index =
     (if index \<ge> 0 \<and> index < int (length (items m))
      then close_modal (m\<lparr> callbackCalls := callbackCalls m @ [items m ! nat index] \<rparr>)
      else m)"

text \<open>
  The key handlers: \<open>Escape\<close> from the constructor (line 50), the arrows and \<open>Enter\<close>
  from \<open>onOpen\<close> (lines 93 to 110). \<open>Enter\<close> clicks the element at \<open>activeIndex\<close>, whose
  click listener (line 75) is \<open>selectItem\<close> at that element's position.
\<close>

definition onEscape :: "'b selectable_modal \<Rightarrow> 'b selectable_modal" where
  "onEscape m = close_modal m"

definition onArrowUp :: "'b selectable_modal \<Rightarrow> 'b selectable_modal" where
  "onArrowUp m = navigateItems m (- 1)"

definition onArrowDown :: "'b selectable_modal \<Rightarrow> 'b selectable_modal" where
  "onArrowDown m = navigateItems m 1"

definition onEnter :: "'b selectable_modal \<Rightarrow> 'b selectable_modal" where
  "onEnter m =
     (if activeIndex m \<ge> 0 \<and> activeIndex m < int (length (itemElements m))
      then selectItem m (activeIndex m)
      else m)"

text \<open>
  The inputs of the user. A pointer event names the row it happens on; the listeners of
  lines 75 to 81 exist for the rendered rows only, so an event on a row that is not
  rendered reaches nothing, and so does any input once the modal is closed (the host
  removes the content and the key scope on closing).
\<close>

datatype event =
  ArrowUp | ArrowDown | Enter | Escape | Click nat | MouseOver nat | MouseLeave nat

definition fire :: "'b selectable_modal \<Rightarrow> event \<Rightarrow> 'b selectable_modal" where
  "fire m ev =
     (if \<not> isOpen m then m
      else case ev of
          ArrowUp \<Rightarrow> onArrowUp m
        | ArrowDown \<Rightarrow> onArrowDown m
        | Enter \<Rightarrow> onEnter m
        | Escape \<Rightarrow> onEscape m
        | Click i \<Rightarrow> if i < length (itemElements m) then selectItem m (int i) else m
        | MouseOver i \<Rightarrow> if i < length (itemElements m) then handleMouseOver m (int i) else m
        | MouseLeave i \<Rightarrow> if i < length (itemElements m) then handleMouseLeave m else m)"

text \<open>A session: the modal is constructed, opened, and receives inputs in order.\<close>

definition session :: "'b selectable_item_scheme list \<Rightarrow> jsstring \<Rightarrow> event list \<Rightarrow> 'b selectable_modal" where
  "session its title evs = foldl fire (open_modal (new_SelectableModal its title)) evs"

text \<open>The rows that are rendered as highlighted, by position.\<close>

definition highlighted :: "'b selectable_modal \<Rightarrow> nat list" where
  "highlighted m = filter (\<lambda>i. is_focused (itemElements m ! i)) [0 ..< length (itemElements m)]"

text \<open>The inputs that move or hover, and never select or dismiss.\<close>

fun is_highlight_event :: "event \<Rightarrow> bool" where
  "is_highlight_event ArrowUp = True"
| "is_highlight_event ArrowDown = True"
| "is_highlight_event (MouseOver i) = True"
| "is_highlight_event (MouseLeave i) = True"
| "is_highlight_event _ = False"

section \<open>String operations used by the plugin (src/main.ts)\<close>

text \<open>
  \<open>s.substring(start, end?)\<close>: both positions are clamped to the string and swapped
  when they are out of order; a missing \<open>end\<close> is the length.
\<close>

definition substring :: "'a list \<Rightarrow> int \<Rightarrow> int option \<Rightarrow> 'a list" where
  "substring s start end =
     (let len = int (length s);
          intEnd = (case end of None \<Rightarrow> len | Some e \<Rightarrow> e);
          finalStart = min (max start 0) len;
          finalEnd = min (max intEnd 0) len;
          from = min finalStart finalEnd;
          to = max finalStart finalEnd
      in take (nat (to - from)) (drop (nat from) s))"

text \<open>
  \<open>s.split(sep)\<close> for a separator of one code unit: the fields between the separators,
  in order; a string without the separator (the empty string too) is one field.
\<close>

fun split :: "'a list \<Rightarrow> 'a \<Rightarrow> 'a list list" where
  "split [] sep = [[]]"
| "split (c # cs) sep =
     (if c = sep then [] # split cs sep
      else (case split cs sep of
              [] \<Rightarrow> [[c]]
            | part # rest \<Rightarrow> (c # part) # rest))"

text \<open>
  \<open>s.lastIndexOf(c)\<close> for one code unit: the last position of \<open>c\<close>, or \<open>-1\<close>. The scan
  carries the position it is at and the last position where it saw \<open>c\<close>.
\<close>

fun lastIndexOf_scan :: "'a list \<Rightarrow> 'a \<Rightarrow> int \<Rightarrow> int \<Rightarrow> int" where
  "lastIndexOf_scan [] c pos found = found"
| "lastIndexOf_scan (x # xs) c pos found =
     lastIndexOf_scan xs c (pos + 1) (if x = c then pos else found)"

definition lastIndexOf :: "'a list \<Rightarrow> 'a \<Rightarrow> int" where
  "lastIndexOf s c = lastIndexOf_scan s c 0 (- 1)"

text \<open>
  The regular expressions the plugin needs: a sequence of nodes, each one character
  atom or a lazy repetition (one or more) of an atom, matched from the start of the
  input (\<open>^\<close>) to its end (\<open>$\<close>). The dot matches every code unit but the four line
  terminators. \<open>regexp_test\<close> backtracks as the lazy quantifier does: it tries the rest
  of the pattern first and one more repetition after that.
\<close>

datatype atom = Chr jschar | Dot

datatype node = One atom | PlusLazy atom

definition lineTerminator :: "jschar \<Rightarrow> bool" where
  "lineTerminator c = (c = 0x000A \<or> c = 0x000D \<or> c = 0x2028 \<or> c = 0x2029)"

fun atom_matches :: "atom \<Rightarrow> jschar \<Rightarrow> bool" where
  "atom_matches (Chr d) c = (c = d)"
| "atom_matches Dot c = (\<not> lineTerminator c)"

fun regexp_test :: "node list \<Rightarrow> jsstring \<Rightarrow> bool" where
  "regexp_test [] s = (s = [])"
| "regexp_test (One a # ns) [] = False"
| "regexp_test (One a # ns) (c # cs) = (atom_matches a c \<and> regexp_test ns cs)"
| "regexp_test (PlusLazy a # ns) [] = False"
| "regexp_test (PlusLazy a # ns) (c # cs) =
     (atom_matches a c \<and> (regexp_test ns cs \<or> regexp_test (PlusLazy a # ns) cs))"

text \<open>The pattern of line 152: \<^verbatim>\<open>/^\[\[.+?\]\]$/\<close>.\<close>

definition wikilinkPattern :: "node list" where
  "wikilinkPattern =
     [One (Chr 0x5B), One (Chr 0x5B), PlusLazy Dot, One (Chr 0x5D), One (Chr 0x5D)]"

section \<open>The plugin (src/main.ts)\<close>

text \<open>
  The values that reading a front-matter property can give: what the note's header
  holds (an object is the list of its own fields), and a function object, which no
  header holds but which the prototype of every object provides.
\<close>

datatype jsvalue =
    JUndefined
  | JNull
  | JBoolean bool
  | JNumber int
  | JString jsstring
  | JArray "jsvalue list"
  | JObject "(jsstring \<times> jsvalue) list"
  | JFunction

datatype js_error = TypeError

text \<open>
  The conversion to a string that a template literal applies (\<^verbatim>\<open>${item}\<close>, line 157)
  throws a \<open>TypeError\<close> exactly when no primitive comes out of it. An object of the
  header converts through the inherited \<open>toString\<close> unless it has a field of that name
  of its own: a field's value is never callable, so the conversion goes on to
  \<open>valueOf\<close>, which gives no primitive either, and throws. An array joins the
  conversions of its elements, \<open>undefined\<close> and \<open>null\<close> counting as empty.
\<close>

fun toString_throws :: "jsvalue \<Rightarrow> bool" where
  "toString_throws (JObject own) = (lit ''toString'' \<in> set (map fst own))"
| "toString_throws (JArray xs) = list_ex toString_throws xs"
| "toString_throws _ = False"

text \<open>The test of line 152 on one entry of the list.\<close>

fun isWikilinkEntry :: "jsvalue \<Rightarrow> bool" where
  "isWikilinkEntry (JString s) = regexp_test wikilinkPattern s"
| "isWikilinkEntry _ = False"

text \<open>\<open>interface ParentTopicItem extends SelectableItem\<close> (line 20).\<close>

record parent_topic_item = selectable_item +
  linkText :: jsstring

type_synonym parent_topic_modal = "unit parent_topic_item_ext selectable_modal"

text \<open>\<open>extractDisplayNameFromWikilink\<close> (line 59).\<close>

definition extractDisplayNameFromWikilink :: "jsstring \<Rightarrow> jsstring" where
  "extractDisplayNameFromWikilink wikilink =
     (let bareLink = substring wikilink 2 (Some (int (length wikilink) - 2));
          parts = split bareLink 0x7C;
          mainPart = (if length parts > 1 then parts ! 1 else parts ! 0);
          lastSlashIndex = lastIndexOf mainPart 0x2F
      in if lastSlashIndex = - 1 then mainPart
         else substring mainPart (lastSlashIndex + 1) None)"

text \<open>\<open>extractInternalPathFromWikilink\<close> (line 71).\<close>

definition extractInternalPathFromWikilink :: "jsstring \<Rightarrow> jsstring" where
  "extractInternalPathFromWikilink wikilink =
     (let bareLink = substring wikilink 2 (Some (int (length wikilink) - 2));
          parts = split bareLink 0x7C;
          linkPath = parts ! 0;
          linkPath1 = split linkPath 0x23 ! 0;
          linkPath2 = split linkPath1 0x5E ! 0
      in linkPath2)"

text \<open>
  The host: the active file, the metadata cache (file cache and link resolution) and
  whether opening a file in the current leaf throws.
\<close>

record tfile =
  path :: jsstring
  basename :: jsstring

record cached_metadata =
  frontmatter :: "(jsstring \<times> jsvalue) list option"

record app =
  getActiveFile :: "tfile option"
  getFileCache :: "tfile \<Rightarrow> cached_metadata option"
  getFirstLinkpathDest :: "jsstring \<Rightarrow> jsstring \<Rightarrow> tfile option"
  openFile_throws :: "tfile \<Rightarrow> bool"

record jump_topic_note_settings =
  topicProperty :: jsstring

text \<open>\<open>DEFAULT_SETTINGS\<close> (line 16).\<close>

definition DEFAULT_SETTINGS :: jump_topic_note_settings where
  "DEFAULT_SETTINGS = \<lparr> topicProperty = lit ''parents'' \<rparr>"

text \<open>
  The front matter is a plain object, so \<open>frontmatter[key]\<close> (line 122) finds the
  note's own field of that name or else the member of that name of \<open>Object.prototype\<close>:
  eleven functions and \<open>__proto__\<close>, which reads as the prototype itself, an object with
  no field to enumerate. Any other missing key reads as \<open>undefined\<close>.
\<close>

definition objectPrototypeMember :: "jsstring \<Rightarrow> jsvalue option" where
  "objectPrototypeMember key =
     (if key \<in> set (map lit
           [''constructor'', ''hasOwnProperty'', ''isPrototypeOf'', ''propertyIsEnumerable'',
            ''toLocaleString'', ''toString'', ''valueOf'', ''__defineGetter__'',
            ''__defineSetter__'', ''__lookupGetter__'', ''__lookupSetter__''])
      then Some JFunction
      else if key = lit ''__proto__'' then Some (JObject [])
      else None)"

definition property :: "(jsstring \<times> jsvalue) list \<Rightarrow> jsstring \<Rightarrow> jsvalue" where
  "property fm key =
     (case map_of fm key of
        Some v \<Rightarrow> v
      | None \<Rightarrow> (case objectPrototypeMember key of Some v \<Rightarrow> v | None \<Rightarrow> JUndefined))"

text \<open>
  What the plugin does to the outside, in order: a notice on screen, a record on the
  error console, a request to resolve a link path from a source path, a request to open
  a file. The texts of notices and console records are kept as their kind and the
  values they interpolate.
\<close>

datatype notice =
    NotAListNotice jsstring jsstring
  | InvalidEntriesNotice jsstring
  | TargetMissingNotice jsstring
  | OpenErrorNotice jsstring

datatype console_record =
    NotAListRecord jsstring jsstring jsvalue
  | InvalidEntryRecord jsstring jsvalue jsstring
  | TargetMissingRecord jsstring jsstring jsstring
  | OpenErrorRecord

datatype effect =
    Notice notice
  | ConsoleError console_record
  | LinkpathDest jsstring jsstring
  | OpenFile tfile

text \<open>\<open>navigateToLink\<close> (line 81).\<close>

definition navigateToLink :: "app \<Rightarrow> jsstring \<Rightarrow> jsstring \<Rightarrow> effect list" where
  "navigateToLink a link_text sourcePath =
     (let internalPath = extractInternalPathFromWikilink link_text
      in case getFirstLinkpathDest a internalPath sourcePath of
           None \<Rightarrow>
             [LinkpathDest internalPath sourcePath,
              Notice (TargetMissingNotice internalPath),
              ConsoleError (TargetMissingRecord link_text internalPath sourcePath)]
         | Some targetFile \<Rightarrow>
             if openFile_throws a targetFile
             then [LinkpathDest internalPath sourcePath, OpenFile targetFile,
                   Notice (OpenErrorNotice link_text), ConsoleError OpenErrorRecord]
             else [LinkpathDest internalPath sourcePath, OpenFile targetFile])"

text \<open>
  The loop of lines 151 to 160 over the entries, on the three variables it assigns:
  \<open>validWikilinks\<close>, \<open>invalidEntriesFound\<close> and the console. The console record of an
  invalid entry interpolates the entry; when that conversion throws, the loop ends there
  with the error and what the console holds so far.
\<close>

fun scanEntries ::
  "jsstring \<Rightarrow> jsstring \<Rightarrow> jsvalue list \<Rightarrow> jsstring list \<times> bool \<times> effect list
     \<Rightarrow> js_error \<times> effect list + jsstring list \<times> bool \<times> effect list" where
  "scanEntries key base [] st = Inr st"
| "scanEntries key base (item # rest) (validWikilinks, invalidEntriesFound, console) =
     (case item of
        JString s \<Rightarrow>
          if regexp_test wikilinkPattern s
          then scanEntries key base rest (validWikilinks @ [s], invalidEntriesFound, console)
          else scanEntries key base rest
                 (validWikilinks, True, console @ [ConsoleError (InvalidEntryRecord key item base)])
      | _ \<Rightarrow>
          if toString_throws item then Inl (TypeError, console)
          else scanEntries key base rest
                 (validWikilinks, True, console @ [ConsoleError (InvalidEntryRecord key item base)]))"

text \<open>
  The result of one run of the command: the effects in order, the modal with the
  callback it was given when one was constructed and opened, and the error the run
  ended with when it threw (the promise of the command is then rejected).
\<close>

record picker =
  modal :: parent_topic_modal
  callback :: "parent_topic_item \<Rightarrow> effect list"

record jump_outcome =
  effects :: "effect list"
  opened :: "picker option"
  thrown :: "js_error option"

definition nothing :: jump_outcome where
  "nothing = \<lparr> effects = [], opened = None, thrown = None \<rparr>"

text \<open>\<open>executeJumpLogic\<close> (line 107).\<close>

definition executeJumpLogic :: "app \<Rightarrow> jump_topic_note_settings \<Rightarrow> jump_outcome" where
  "executeJumpLogic a settings =
     (case getActiveFile a of
        None \<Rightarrow> nothing
      | Some activeFile \<Rightarrow>
     (case getFileCache a activeFile of
        None \<Rightarrow> nothing
      | Some fileCache \<Rightarrow>
     (case frontmatter fileCache of
        None \<Rightarrow> nothing
      | Some fm \<Rightarrow>
          let topicPropertyKey = topicProperty settings;
              rawParentsEntry = property fm topicPropertyKey
          in if rawParentsEntry = JUndefined \<or> rawParentsEntry = JNull then nothing
             else (case rawParentsEntry of
               JArray parentsList \<Rightarrow>
                 if length parentsList = 0 then nothing
                 else
                   (case scanEntries topicPropertyKey (basename activeFile) parentsList
                           ([], False, []) of
                      Inl (error, console) \<Rightarrow>
                        \<lparr> effects = console, opened = None, thrown = Some error \<rparr>
                    | Inr (validWikilinks, invalidEntriesFound, console) \<Rightarrow>
                        if invalidEntriesFound
                        then \<lparr> effects = console @ [Notice (InvalidEntriesNotice topicPropertyKey)],
                               opened = None, thrown = None \<rparr>
                        else if length validWikilinks = 0 then nothing
                        else if length validWikilinks = 1
                        then \<lparr> effects = navigateToLink a (validWikilinks ! 0) (path activeFile),
                               opened = None, thrown = None \<rparr>
                        else if length validWikilinks > 1
                        then
                          let modalItems =
                                map (\<lambda>link. \<lparr> name = extractDisplayNameFromWikilink link,
                                              linkText = link \<rparr>) validWikilinks
                          in \<lparr> effects = [],
                               opened = Some
                                 \<lparr> modal = open_modal (new_SelectableModal modalItems
                                             (lit ''Select superior topic note'')),
                                   callback = (\<lambda>selectedItem.
                                     navigateToLink a (linkText selectedItem) (path activeFile)) \<rparr>,
                               thrown = None \<rparr>
                        else nothing)
             | _ \<Rightarrow>
                 \<lparr> effects =
                     [Notice (NotAListNotice topicPropertyKey (basename activeFile)),
                      ConsoleError (NotAListRecord topicPropertyKey (path activeFile) rawParentsEntry)],
                   opened = None, thrown = None \<rparr>))))"

text \<open>Views of a run: the notices shown and the navigation attempts made.\<close>

definition notices :: "effect list \<Rightarrow> notice list" where
  "notices es = concat (map (\<lambda>e. case e of Notice n \<Rightarrow> [n] | _ \<Rightarrow> []) es)"

definition navigationAttempts :: "effect list \<Rightarrow> (jsstring \<times> jsstring) list" where
  "navigationAttempts es =
     concat (map (\<lambda>e. case e of LinkpathDest p src \<Rightarrow> [(p, src)] | _ \<Rightarrow> []) es)"

section \<open>Notions used in the statements\<close>

text \<open>
  What holds of the modal in every state of a session over the items \<open>its\<close>: the items
  never change and \<open>activeIndex\<close> is a position of an item; while the modal is open it
  has one row per item, the callback has not been called, and a hovered position is a
  position of an item and the only highlighted row; once closed, the callback has been
  called at most once.
\<close>

definition modal_inv :: "'b selectable_item_scheme list \<Rightarrow> 'b selectable_modal \<Rightarrow> bool" where
  "modal_inv its m =
     (items m = its \<and> 0 \<le> activeIndex m \<and> activeIndex m < int (length its) \<and>
      (if isOpen m
       then length (itemElements m) = length its \<and> callbackCalls m = [] \<and>
            (case hoveredIndex m of None \<Rightarrow> True
             | Some h \<Rightarrow> 0 \<le> h \<and> h < int (length its) \<and> highlighted m = [nat h])
       else length (callbackCalls m) \<le> 1))"

text \<open>
  The outer double-bracket wrapper, in the words of the specification: the string
  starts with two opening brackets and ends with two closing brackets, around a body.
\<close>

definition outerWrapper :: "jsstring \<Rightarrow> bool" where
  "outerWrapper s =
     (length s \<ge> 4 \<and> take 2 s = lit ''[['' \<and> drop (length s - 2) s = lit '']]'')"

definition wrapperBody :: "jsstring \<Rightarrow> jsstring" where
  "wrapperBody s = take (length s - 4) (drop 2 s)"

text \<open>
  The shape that the pattern of line 152 asks for: the outer wrapper around a body of
  one or more characters, none of them a line terminator. The two conditions on the
  body are the pattern's (the dot and its repetition), not the specification's.
\<close>

definition doubleBracketWrapped :: "jsstring \<Rightarrow> bool" where
  "doubleBracketWrapped s =
     (outerWrapper s \<and> wrapperBody s \<noteq> [] \<and>
      list_all (\<lambda>c. \<not> lineTerminator c) (wrapperBody s))"

text \<open>
  The two derivations of the specification's parsing rule: the final segment of a basis
  is what follows its last \<open>/\<close> (all of it when there is none); a path without its anchor
  is what precedes the first \<open>#\<close> or \<open>^\<close>.
\<close>

definition finalSegment :: "jsstring \<Rightarrow> jsstring" where
  "finalSegment basis = rev (takeWhile (\<lambda>c. c \<noteq> 0x2F) (rev basis))"

definition withoutAnchor :: "jsstring \<Rightarrow> jsstring" where
  "withoutAnchor p = takeWhile (\<lambda>c. c \<noteq> 0x23 \<and> c \<noteq> 0x5E) p"

text \<open>
  Concrete data for the examples: two items, a note, and a host that shows that note
  with a given front matter and knows one other note, "Only Parent".
\<close>

definition exampleItems :: "selectable_item list" where
  "exampleItems = [\<lparr> name = lit ''A'' \<rparr>, \<lparr> name = lit ''B'' \<rparr>]"

definition exampleFile :: tfile where
  "exampleFile = \<lparr> path = lit ''notes/child.md'', basename = lit ''child'' \<rparr>"

definition exampleApp :: "(jsstring \<times> jsvalue) list \<Rightarrow> app" where
  "exampleApp fm =
     \<lparr> getActiveFile = Some exampleFile,
       getFileCache = (\<lambda>file. Some \<lparr> frontmatter = Some fm \<rparr>),
       getFirstLinkpathDest = (\<lambda>linkpath sourcePath.
         if linkpath = lit ''Only Parent''
         then Some \<lparr> path = lit ''Only Parent.md'', basename = lit ''Only Parent'' \<rparr>
         else None),
       openFile_throws = (\<lambda>file. False) \<rparr>"

section \<open>Properties of the selection modal\<close>

text \<open>
  \<open>focusItem\<close> changes the classes of the rows and nothing else; afterwards the
  highlighted rows are the one named by the index, if it names a row.
\<close>

lemma focusItem_fields [simp]:
  "length (itemElements (focusItem m idx)) = length (itemElements m)"
  "items (focusItem m idx) = items m"
  "activeIndex (focusItem m idx) = activeIndex m"
  "hoveredIndex (focusItem m idx) = hoveredIndex m"
  "callbackCalls (focusItem m idx) = callbackCalls m"
  "isOpen (focusItem m idx) = isOpen m"
  by (simp_all add: focusItem_def)

lemma focusItem_more [simp]:
  "heading (focusItem m idx) = heading m"
  "modalTitle (focusItem m idx) = modalTitle m"
  by (simp_all add: focusItem_def)

lemma focusItem_textContent [simp]:
  "map textContent (itemElements (focusItem m idx)) = map textContent (itemElements m)"
  by (rule nth_equalityI) (simp_all add: focusItem_def nth_enumerate_eq)

lemma filter_eq_upt: "filter (\<lambda>j. int j = k) [0 ..< n] = (if 0 \<le> k \<and> k < int n then [nat k] else [])"
  by (induction n) auto

lemma highlighted_focusItem:
  "highlighted (focusItem m idx) =
     (case idx of None \<Rightarrow> []
      | Some i \<Rightarrow> if 0 \<le> i \<and> i < int (length (itemElements m)) then [nat i] else [])"
proof -
  let ?k = "case idx of None \<Rightarrow> - 1 | Some i \<Rightarrow> i"
  have "highlighted (focusItem m idx) = filter (\<lambda>j. int j = ?k) [0 ..< length (itemElements m)]"
    unfolding highlighted_def
    by (rule filter_cong) (auto simp: focusItem_def nth_enumerate_eq)
  then show ?thesis
    by (simp add: filter_eq_upt split: option.split)
qed

lemma close_modal_fields [simp]:
  "isOpen (close_modal m) = False"
  "items (close_modal m) = items m"
  "activeIndex (close_modal m) = activeIndex m"
  "callbackCalls (close_modal m) = callbackCalls m"
  "hoveredIndex (close_modal m) = None"
  "itemElements (close_modal m) = []"
  by (simp_all add: close_modal_def onClose_def)

lemma selectItem_in_range:
  "0 \<le> i \<Longrightarrow> i < int (length (items m)) \<Longrightarrow>
   selectItem m i = close_modal (m\<lparr> callbackCalls := callbackCalls m @ [items m ! nat i] \<rparr>)"
  by (simp add: selectItem_def)

text \<open>
  The invariant holds after opening and is kept by every input.
\<close>

lemma modal_inv_open:
  assumes "its \<noteq> []"
  shows "modal_inv its (open_modal (new_SelectableModal its t))"
  using assms
  by (simp add: modal_inv_def open_modal_def onOpen_def new_SelectableModal_def)

lemma modal_inv_navigate:
  assumes "modal_inv its m" "isOpen m" "d = 1 \<or> d = - 1"
  shows "modal_inv its (navigateItems m d)"
  using assms
  by (auto simp: modal_inv_def navigateItems_def Let_def split: option.splits)

lemma modal_inv_fire:
  assumes "modal_inv its m"
  shows "modal_inv its (fire m e)"
proof (cases "isOpen m")
  case False
  then show ?thesis using assms by (simp add: fire_def)
next
  case True
  show ?thesis
  proof (cases e)
    case ArrowUp
    then show ?thesis using assms True modal_inv_navigate[of its m "- 1"]
      by (simp add: fire_def onArrowUp_def)
  next
    case ArrowDown
    then show ?thesis using assms True modal_inv_navigate[of its m 1]
      by (simp add: fire_def onArrowDown_def)
  next
    case Enter
    then show ?thesis using assms True
      by (auto simp: fire_def onEnter_def modal_inv_def selectItem_def)
  next
    case Escape
    then show ?thesis using assms True
      by (auto simp: fire_def onEscape_def modal_inv_def)
  next
    case (Click i)
    then show ?thesis using assms True
      by (auto simp: fire_def modal_inv_def selectItem_def)
  next
    case (MouseOver i)
    then show ?thesis using assms True
      by (auto simp: fire_def modal_inv_def handleMouseOver_def highlighted_focusItem)
  next
    case (MouseLeave i)
    then show ?thesis using assms True
      by (auto simp: fire_def modal_inv_def handleMouseLeave_def)
  qed
qed

lemma session_snoc: "session its t (evs @ [e]) = fire (session its t evs) e"
  by (simp add: session_def)

lemma session_append: "session its t (evs @ evs') = foldl fire (session its t evs) evs'"
  by (simp add: session_def)

lemma modal_inv_session:
  assumes "its \<noteq> []"
  shows "modal_inv its (session its t evs)"
proof (induction evs rule: rev_induct)
  case Nil
  show ?case using modal_inv_open[OF assms] by (simp add: session_def)
next
  case (snoc e evs)
  then show ?case by (simp add: session_snoc modal_inv_fire)
qed

lemma session_open_facts:
  assumes "its \<noteq> []" "isOpen (session its t evs)"
  shows "items (session its t evs) = its"
    and "length (itemElements (session its t evs)) = length its"
    and "callbackCalls (session its t evs) = []"
    and "0 \<le> activeIndex (session its t evs)"
    and "activeIndex (session its t evs) < int (length its)"
  using modal_inv_session[OF assms(1), of t evs] assms(2)
  by (simp_all add: modal_inv_def)

lemma fire_closed: "\<not> isOpen m \<Longrightarrow> fire m e = m"
  by (simp add: fire_def)

lemma foldl_fire_closed: "\<not> isOpen m \<Longrightarrow> foldl fire m evs = m"
  by (induction evs) (simp_all add: fire_closed)

lemma highlight_events_keep_open:
  assumes "isOpen m" "is_highlight_event e"
  shows "isOpen (fire m e)"
  using assms
  by (cases e) (simp_all add: fire_def onArrowUp_def onArrowDown_def navigateItems_def
      handleMouseOver_def handleMouseLeave_def Let_def split: option.split)

lemma session_highlight_events_open:
  "list_all is_highlight_event evs \<Longrightarrow> isOpen (session its t evs)"
proof (induction evs rule: rev_induct)
  case Nil
  show ?case
    by (simp add: session_def open_modal_def onOpen_def new_SelectableModal_def Let_def)
next
  case (snoc e evs)
  then show ?case by (simp add: session_snoc highlight_events_keep_open)
qed

text \<open>
  The definitions to unfold when a session over concrete items is evaluated.
\<close>

lemmas modal_defs = session_def open_modal_def onOpen_def new_SelectableModal_def fire_def
  handleMouseOver_def handleMouseLeave_def onEnter_def onEscape_def onArrowUp_def onArrowDown_def
  navigateItems_def selectItem_def close_modal_def onClose_def highlighted_def focusItem_def
  enumerate_eq_zip exampleItems_def

text \<open>
  C1, as amended. In the open state \<open>Enter\<close> is a direct selection at \<open>activeIndex\<close>: it
  calls the callback with the item at \<open>activeIndex\<close> and closes the modal, whatever
  \<open>hoveredIndex\<close> is. When \<open>hoveredIndex\<close> is set to \<open>i\<close>, the row rendered as highlighted is
  row \<open>i\<close>, and it is the row that \<open>Enter\<close> selects exactly when \<open>i\<close> is \<open>activeIndex\<close>.
\<close>

theorem enter_selects_activeIndex:
  assumes "its \<noteq> []" and "isOpen (session its t evs)"
  shows "fire (session its t evs) Enter = selectItem (session its t evs) (activeIndex (session its t evs))
       \<and> callbackCalls (fire (session its t evs) Enter) = [its ! nat (activeIndex (session its t evs))]
       \<and> \<not> isOpen (fire (session its t evs) Enter)
       \<and> (\<forall>i. hoveredIndex (session its t evs) = Some i \<longrightarrow>
             highlighted (session its t evs) = [nat i]
           \<and> (highlighted (session its t evs) = [nat (activeIndex (session its t evs))]
                \<longleftrightarrow> i = activeIndex (session its t evs)))"
proof -
  let ?s = "session its t evs"
  note f = session_open_facts[OF assms]
  have inv: "modal_inv its ?s" by (rule modal_inv_session[OF assms(1)])
  have 1: "fire ?s Enter = selectItem ?s (activeIndex ?s)"
    using assms(2) f by (simp add: fire_def onEnter_def)
  have 2: "callbackCalls (selectItem ?s (activeIndex ?s)) = [its ! nat (activeIndex ?s)]"
    using f by (simp add: selectItem_def)
  have 3: "\<not> isOpen (selectItem ?s (activeIndex ?s))"
    using f by (simp add: selectItem_def)
  have 4: "highlighted ?s = [nat i] \<and> (highlighted ?s = [nat (activeIndex ?s)] \<longleftrightarrow> i = activeIndex ?s)"
    if "hoveredIndex ?s = Some i" for i
    using inv that assms(2) f by (auto simp: modal_inv_def)
  show ?thesis unfolding 1 using 2 3 4 by blast
qed

theorem enter_selects_activeIndex_witness:
  "exampleItems \<noteq> [] \<and> isOpen (session exampleItems (lit ''T'') [MouseOver 1])
   \<and> hoveredIndex (session exampleItems (lit ''T'') [MouseOver 1]) = Some 1
   \<and> activeIndex (session exampleItems (lit ''T'') [MouseOver 1]) = 0
   \<and> fire (session exampleItems (lit ''T'') [MouseOver 1]) Enter
        = selectItem (session exampleItems (lit ''T'') [MouseOver 1]) 0
   \<and> callbackCalls (fire (session exampleItems (lit ''T'') [MouseOver 1]) Enter) = [\<lparr> name = lit ''A'' \<rparr>]
   \<and> highlighted (session exampleItems (lit ''T'') [MouseOver 1]) = [1]"
proof -
  have h1: "exampleItems \<noteq> []" by (simp add: exampleItems_def)
  have h2: "isOpen (session exampleItems (lit ''T'') [MouseOver 1])" by (simp add: modal_defs)
  have h3: "hoveredIndex (session exampleItems (lit ''T'') [MouseOver 1]) = Some 1"
    by (simp add: modal_defs)
  have a: "activeIndex (session exampleItems (lit ''T'') [MouseOver 1]) = 0"
    by (simp add: modal_defs)
  have n: "exampleItems ! 0 = \<lparr> name = lit ''A'' \<rparr>" by (simp add: exampleItems_def)
  show ?thesis
    using h1 h2 h3 a n enter_selects_activeIndex[OF h1 h2]
    by auto
qed

text \<open>
  C1 as stated fails: over two items, after the pointer enters row 1 the hovered and
  the highlighted row are row 1, while \<open>Enter\<close> calls the callback with the item of row 0,
  which is another item.
\<close>

theorem enter_hovered_counterexample:
  "hoveredIndex (session exampleItems (lit ''T'') [MouseOver 1]) = Some 1
   \<and> highlighted (session exampleItems (lit ''T'') [MouseOver 1]) = [1]
   \<and> callbackCalls (fire (session exampleItems (lit ''T'') [MouseOver 1]) Enter) = [exampleItems ! 0]
   \<and> exampleItems ! 0 \<noteq> exampleItems ! 1"
  by (simp add: modal_defs lit_def)

text \<open>
  C2. In an open session over \<open>n \<ge> 1\<close> items, the pointer entering row \<open>i < n\<close> followed
  by \<open>ArrowDown\<close> leaves \<open>activeIndex\<close> and the highlighted row at \<open>(i + 1) mod n\<close>, with no
  hovered row; the state before the hover, its \<open>activeIndex\<close> included, plays no part.
\<close>

theorem hover_then_move_down:
  assumes "its \<noteq> []" and "isOpen (session its t evs)" and "i < length its"
  shows "activeIndex (session its t (evs @ [MouseOver i, ArrowDown])) = int ((i + 1) mod length its)
       \<and> hoveredIndex (session its t (evs @ [MouseOver i, ArrowDown])) = None
       \<and> highlighted (session its t (evs @ [MouseOver i, ArrowDown])) = [(i + 1) mod length its]"
proof -
  let ?s = "session its t evs"
  have len: "length (itemElements ?s) = length its"
    using session_open_facts(2)[OF assms(1,2)] .
  have eq: "session its t (evs @ [MouseOver i, ArrowDown]) = navigateItems (handleMouseOver ?s (int i)) 1"
    using assms(2,3) len
    by (simp add: session_append fire_def handleMouseOver_def onArrowDown_def)
  have m: "int ((i + 1) mod length its) = (if int i + 1 \<ge> int (length its) then 0 else int i + 1)"
    using assms(3) by (auto simp: mod_Suc)
  show ?thesis
    unfolding eq using assms(1,3) len m
    by (auto simp: navigateItems_def handleMouseOver_def Let_def highlighted_focusItem mod_Suc nat_add_distrib)
qed

theorem hover_then_move_down_witness:
  "exampleItems \<noteq> [] \<and> isOpen (session exampleItems (lit ''T'') [ArrowDown]) \<and> 1 < length exampleItems
   \<and> activeIndex (session exampleItems (lit ''T'') [ArrowDown, MouseOver 1, ArrowDown]) = 0
   \<and> hoveredIndex (session exampleItems (lit ''T'') [ArrowDown, MouseOver 1, ArrowDown]) = None
   \<and> highlighted (session exampleItems (lit ''T'') [ArrowDown, MouseOver 1, ArrowDown]) = [0]"
proof -
  have h1: "exampleItems \<noteq> []" by (simp add: exampleItems_def)
  have h2: "isOpen (session exampleItems (lit ''T'') [ArrowDown])" by (simp add: modal_defs)
  have h3: "1 < length exampleItems" by (simp add: exampleItems_def)
  have l: "length exampleItems = 2" by (simp add: exampleItems_def)
  show ?thesis using h1 h2 h3 hover_then_move_down[OF h1 h2 h3] by (simp add: l)
qed

text \<open>
  C3. In a session over at least one item: selecting a valid position \<open>i\<close> of an open
  modal calls the callback with exactly the item at \<open>i\<close>, once, and closes the modal,
  and no later input adds a call; \<open>Escape\<close> closes the modal and the callback is never
  called, whatever input follows; in every state of a session the callback has been
  called at most once.
\<close>

theorem select_calls_back_once:
  assumes "its \<noteq> []"
  shows "(isOpen (session its t evs) \<and> i < length its \<longrightarrow>
            callbackCalls (selectItem (session its t evs) (int i)) = [its ! i]
          \<and> \<not> isOpen (selectItem (session its t evs) (int i))
          \<and> session its t (evs @ [Click i]) = selectItem (session its t evs) (int i)
          \<and> callbackCalls (session its t (evs @ Click i # evs')) = [its ! i])
       \<and> (isOpen (session its t evs) \<longrightarrow>
            \<not> isOpen (session its t (evs @ [Escape]))
          \<and> callbackCalls (session its t (evs @ Escape # evs')) = [])
       \<and> length (callbackCalls (session its t evs)) \<le> 1"
proof -
  let ?s = "session its t evs"
  have inv: "modal_inv its ?s" by (rule modal_inv_session[OF assms])
  have sel: "callbackCalls (selectItem ?s (int i)) = [its ! i] \<and> \<not> isOpen (selectItem ?s (int i))
          \<and> session its t (evs @ [Click i]) = selectItem ?s (int i)
          \<and> callbackCalls (session its t (evs @ Click i # evs')) = [its ! i]"
    if o: "isOpen ?s" and i: "i < length its"
  proof -
    note f = session_open_facts[OF assms o]
    have 1: "callbackCalls (selectItem ?s (int i)) = [its ! i]"
      using f i by (simp add: selectItem_def)
    have 2: "\<not> isOpen (selectItem ?s (int i))"
      using f i by (simp add: selectItem_def)
    have 3: "session its t (evs @ [Click i]) = selectItem ?s (int i)"
      using f i o by (simp add: session_snoc fire_def)
    have "session its t (evs @ Click i # evs') = foldl fire (session its t (evs @ [Click i])) evs'"
      by (simp add: session_def)
    then have 4: "callbackCalls (session its t (evs @ Click i # evs')) = [its ! i]"
      using 1 2 3 by (simp add: foldl_fire_closed)
    show ?thesis using 1 2 3 4 by blast
  qed
  have esc: "\<not> isOpen (session its t (evs @ [Escape]))
          \<and> callbackCalls (session its t (evs @ Escape # evs')) = []"
    if o: "isOpen ?s"
  proof -
    note f = session_open_facts[OF assms o]
    have 1: "session its t (evs @ [Escape]) = close_modal ?s"
      using o by (simp add: session_snoc fire_def onEscape_def)
    have "session its t (evs @ Escape # evs') = foldl fire (session its t (evs @ [Escape])) evs'"
      by (simp add: session_def)
    then show ?thesis using 1 f by (simp add: foldl_fire_closed)
  qed
  have most: "length (callbackCalls ?s) \<le> 1"
    using inv by (auto simp: modal_inv_def split: if_splits)
  show ?thesis using sel esc most by blast
qed

theorem select_calls_back_once_witness:
  "exampleItems \<noteq> [] \<and> isOpen (session exampleItems (lit ''T'') [ArrowDown]) \<and> 1 < length exampleItems
   \<and> callbackCalls (selectItem (session exampleItems (lit ''T'') [ArrowDown]) 1) = [\<lparr> name = lit ''B'' \<rparr>]
   \<and> \<not> isOpen (selectItem (session exampleItems (lit ''T'') [ArrowDown]) 1)
   \<and> callbackCalls (session exampleItems (lit ''T'') ([ArrowDown] @ Click 1 # [Enter])) = [\<lparr> name = lit ''B'' \<rparr>]
   \<and> \<not> isOpen (session exampleItems (lit ''T'') ([ArrowDown] @ [Escape]))
   \<and> callbackCalls (session exampleItems (lit ''T'') ([ArrowDown] @ Escape # [Enter])) = []
   \<and> length (callbackCalls (session exampleItems (lit ''T'') [ArrowDown])) \<le> 1"
proof -
  have h1: "exampleItems \<noteq> []" by (simp add: exampleItems_def)
  have h2: "isOpen (session exampleItems (lit ''T'') [ArrowDown])" by (simp add: modal_defs)
  have h3: "1 < length exampleItems" by (simp add: exampleItems_def)
  have n: "exampleItems ! 1 = \<lparr> name = lit ''B'' \<rparr>" by (simp add: exampleItems_def)
  show ?thesis
    using h1 h2 h3 n select_calls_back_once[OF h1, of "lit ''T''" "[ArrowDown]" 1 "[Enter]"]
    by simp
qed

text \<open>
  C8. In a session over \<open>n \<ge> 1\<close> items \<open>activeIndex\<close> is a position of an item in every
  state (after any inputs at all); arrow and pointer inputs leave the modal open with
  its \<open>n\<close> rows; right after opening \<open>activeIndex\<close> is 0, nothing is hovered and row 0 is
  the highlighted row.
\<close>

theorem activeIndex_valid:
  assumes "its \<noteq> []"
  shows "0 \<le> activeIndex (session its t evs) \<and> activeIndex (session its t evs) < int (length its)
       \<and> (list_all is_highlight_event evs \<longrightarrow> isOpen (session its t evs)
             \<and> length (itemElements (session its t evs)) = length its)
       \<and> isOpen (session its t []) \<and> activeIndex (session its t []) = 0
       \<and> hoveredIndex (session its t []) = None \<and> highlighted (session its t []) = [0]"
proof -
  have a: "0 \<le> activeIndex (session its t evs) \<and> activeIndex (session its t evs) < int (length its)"
    using modal_inv_session[OF assms, of t evs] by (simp add: modal_inv_def)
  have b: "list_all is_highlight_event evs \<longrightarrow> isOpen (session its t evs)
             \<and> length (itemElements (session its t evs)) = length its"
    using session_highlight_events_open[of evs its t] session_open_facts(2)[OF assms, of t evs] by blast
  have c: "isOpen (session its t []) \<and> activeIndex (session its t []) = 0
       \<and> hoveredIndex (session its t []) = None \<and> highlighted (session its t []) = [0]"
    using assms
    by (simp add: session_def open_modal_def onOpen_def new_SelectableModal_def highlighted_focusItem)
  show ?thesis using a b c by blast
qed

theorem activeIndex_valid_witness:
  "exampleItems \<noteq> [] \<and> list_all is_highlight_event [ArrowUp, MouseOver 0, MouseLeave 0]
   \<and> activeIndex (session exampleItems (lit ''T'') [ArrowUp, MouseOver 0, MouseLeave 0]) = 1
   \<and> isOpen (session exampleItems (lit ''T'') [ArrowUp, MouseOver 0, MouseLeave 0])
   \<and> length (itemElements (session exampleItems (lit ''T'') [ArrowUp, MouseOver 0, MouseLeave 0])) = 2
   \<and> activeIndex (session exampleItems (lit ''T'') []) = 0
   \<and> highlighted (session exampleItems (lit ''T'') []) = [0]"
proof -
  have h1: "exampleItems \<noteq> []" by (simp add: exampleItems_def)
  have h2: "list_all is_highlight_event [ArrowUp, MouseOver 0, MouseLeave 0]" by simp
  have l: "length exampleItems = 2" by (simp add: exampleItems_def)
  have a: "activeIndex (session exampleItems (lit ''T'') [ArrowUp, MouseOver 0, MouseLeave 0]) = 1"
    by (simp add: modal_defs)
  show ?thesis
    using h1 h2 a activeIndex_valid[OF h1, of "lit ''T''" "[ArrowUp, MouseOver 0, MouseLeave 0]"]
    by (simp add: l)
qed

text \<open>
  C10. \<open>selectItem\<close> at an index outside the items returns the state it was given: no
  call of the callback, no closing, no field changed, no error.
\<close>

theorem selectItem_out_of_range:
  "index < 0 \<or> index \<ge> int (length (items m)) \<Longrightarrow> selectItem m index = m"
  by (auto simp: selectItem_def)

theorem selectItem_out_of_range_witness:
  "(7 < (0::int) \<or> 7 \<ge> int (length (items (session exampleItems (lit ''T'') []))))
   \<and> selectItem (session exampleItems (lit ''T'') []) 7 = session exampleItems (lit ''T'') []"
proof -
  have h: "7 < (0::int) \<or> 7 \<ge> int (length (items (session exampleItems (lit ''T'') [])))"
    by (simp add: modal_defs)
  show ?thesis using h selectItem_out_of_range[OF h] by blast
qed

section \<open>Properties of the link syntax and of parsing\<close>

text \<open>
  The backtracking test of the pattern accepts exactly the strings that are two opening
  brackets, a non-empty body without line terminator, and two closing brackets.
\<close>

lemma lit_brackets [simp]: "lit ''[['' = [0x5B, 0x5B]" "lit '']]'' = [0x5D, 0x5D]"
  by (simp_all add: lit_def)

lemma regexp_two_chars: "regexp_test [One (Chr a), One (Chr b)] s \<longleftrightarrow> s = [a, b]"
proof (cases s)
  case Nil
  then show ?thesis by simp
next
  case (Cons c cs)
  then show ?thesis by (cases cs) auto
qed

lemma regexp_lazy_body:
  "regexp_test [PlusLazy Dot, One (Chr a), One (Chr b)] s \<longleftrightarrow>
     (\<exists>body. s = body @ [a, b] \<and> body \<noteq> [] \<and> (\<forall>c \<in> set body. \<not> lineTerminator c))"
proof (induction s)
  case Nil
  then show ?case by simp
next
  case (Cons c cs)
  show ?case
  proof
    assume "regexp_test [PlusLazy Dot, One (Chr a), One (Chr b)] (c # cs)"
    then have c: "\<not> lineTerminator c"
      and d: "cs = [a, b] \<or> regexp_test [PlusLazy Dot, One (Chr a), One (Chr b)] cs"
      by (auto simp: regexp_two_chars)
    from d show "\<exists>body. c # cs = body @ [a, b] \<and> body \<noteq> [] \<and> (\<forall>c \<in> set body. \<not> lineTerminator c)"
    proof
      assume "cs = [a, b]"
      then have "c # cs = [c] @ [a, b]" by simp
      then show ?thesis using c by (intro exI[of _ "[c]"]) simp
    next
      assume "regexp_test [PlusLazy Dot, One (Chr a), One (Chr b)] cs"
      then obtain body where "cs = body @ [a, b]" "body \<noteq> []" "\<forall>c \<in> set body. \<not> lineTerminator c"
        using Cons.IH by blast
      then show ?thesis using c by (intro exI[of _ "c # body"]) simp
    qed
  next
    assume "\<exists>body. c # cs = body @ [a, b] \<and> body \<noteq> [] \<and> (\<forall>c \<in> set body. \<not> lineTerminator c)"
    then obtain body where b: "c # cs = body @ [a, b]" "body \<noteq> []" "\<forall>c \<in> set body. \<not> lineTerminator c"
      by blast
    then obtain body' where body: "body = c # body'" by (cases body) auto
    with b have cs: "cs = body' @ [a, b]" and c: "\<not> lineTerminator c"
      and all: "\<forall>c \<in> set body'. \<not> lineTerminator c" by auto
    show "regexp_test [PlusLazy Dot, One (Chr a), One (Chr b)] (c # cs)"
    proof (cases "body' = []")
      case True
      then show ?thesis using cs c by (simp add: regexp_two_chars)
    next
      case False
      then have "regexp_test [PlusLazy Dot, One (Chr a), One (Chr b)] cs"
        using Cons.IH cs all by blast
      then show ?thesis using c by simp
    qed
  qed
qed

lemma wikilinkPattern_iff:
  "regexp_test wikilinkPattern s \<longleftrightarrow>
     (\<exists>body. s = lit ''[['' @ body @ lit '']]'' \<and> body \<noteq> [] \<and> (\<forall>c \<in> set body. \<not> lineTerminator c))"
proof -
  have "regexp_test wikilinkPattern s \<longleftrightarrow>
        (\<exists>r. s = 0x5B # 0x5B # r \<and> regexp_test [PlusLazy Dot, One (Chr 0x5D), One (Chr 0x5D)] r)"
  proof (cases s)
    case Nil
    then show ?thesis by (simp add: wikilinkPattern_def)
  next
    case (Cons c cs)
    then show ?thesis by (cases cs) (auto simp: wikilinkPattern_def)
  qed
  then show ?thesis
    by (auto simp: regexp_lazy_body)
qed

lemma three_parts:
  "length s \<ge> 4 \<Longrightarrow> s = take 2 s @ take (length s - 4) (drop 2 s) @ drop (length s - 2) s"
proof -
  assume l: "length s \<ge> 4"
  have "length s - 4 + 2 = length s - 2" using l by simp
  then have "drop (length s - 4) (drop 2 s) = drop (length s - 2) s"
    by (simp only: drop_drop)
  then have "drop 2 s = take (length s - 4) (drop 2 s) @ drop (length s - 2) s"
    by (metis append_take_drop_id)
  then show ?thesis
    by (metis append_take_drop_id)
qed

lemma doubleBracketWrapped_iff:
  "doubleBracketWrapped s \<longleftrightarrow>
     (\<exists>body. s = lit ''[['' @ body @ lit '']]'' \<and> body \<noteq> [] \<and> (\<forall>c \<in> set body. \<not> lineTerminator c))"
proof
  assume w: "doubleBracketWrapped s"
  let ?body = "take (length s - 4) (drop 2 s)"
  from w have len: "length s \<ge> 4" and p: "take 2 s = lit ''[[''"
    and q: "drop (length s - 2) s = lit '']]''"
    by (simp_all add: doubleBracketWrapped_def outerWrapper_def)
  from w have ne: "?body \<noteq> []"
    and all: "list_all (\<lambda>c. \<not> lineTerminator c) ?body"
    by (simp_all add: doubleBracketWrapped_def wrapperBody_def)
  have "s = lit ''[['' @ ?body @ lit '']]''"
    using three_parts[OF len] p q by simp
  moreover have "\<forall>c \<in> set ?body. \<not> lineTerminator c" using all by (simp add: list_all_iff)
  ultimately show "\<exists>body. s = lit ''[['' @ body @ lit '']]'' \<and> body \<noteq> [] \<and> (\<forall>c \<in> set body. \<not> lineTerminator c)"
    using ne by blast
next
  assume "\<exists>body. s = lit ''[['' @ body @ lit '']]'' \<and> body \<noteq> [] \<and> (\<forall>c \<in> set body. \<not> lineTerminator c)"
  then obtain body where b: "s = lit ''[['' @ body @ lit '']]''" "body \<noteq> []"
    "\<forall>c \<in> set body. \<not> lineTerminator c" by blast
  show "doubleBracketWrapped s"
    using b by (simp add: doubleBracketWrapped_def outerWrapper_def wrapperBody_def list_all_iff)
qed

lemma wrapped_ends:
  assumes "doubleBracketWrapped s"
  shows "s \<noteq> []" and "hd s = 0x5B" and "last s = 0x5D"
proof -
  from assms obtain body where s: "s = lit ''[['' @ body @ lit '']]''"
    using doubleBracketWrapped_iff by blast
  show "s \<noteq> []" "hd s = 0x5B" "last s = 0x5D"
    unfolding s by simp_all
qed

lemma bracket_no_lineTerminator: "\<not> lineTerminator 0x5B" "\<not> lineTerminator 0x5D"
  by (simp_all add: lineTerminator_def)

text \<open>
  Only the outermost brackets are looked at: text that begins with one link and ends
  with another, on one line, has the shape again.
\<close>

lemma link_text_link_wrapped:
  assumes "doubleBracketWrapped link1" and "doubleBracketWrapped link2"
    and "\<forall>c \<in> set mid. \<not> lineTerminator c"
  shows "doubleBracketWrapped (link1 @ mid @ link2)"
proof -
  from assms(1) obtain b1 where 1: "link1 = lit ''[['' @ b1 @ lit '']]''"
    "\<forall>c \<in> set b1. \<not> lineTerminator c"
    using doubleBracketWrapped_iff by blast
  from assms(2) obtain b2 where 2: "link2 = lit ''[['' @ b2 @ lit '']]''"
    "\<forall>c \<in> set b2. \<not> lineTerminator c"
    using doubleBracketWrapped_iff by blast
  let ?body = "b1 @ lit '']]'' @ mid @ lit ''[['' @ b2"
  have "link1 @ mid @ link2 = lit ''[['' @ ?body @ lit '']]''"
    using 1(1) 2(1) by simp
  moreover have "?body \<noteq> []" by simp
  moreover have "\<forall>c \<in> set ?body. \<not> lineTerminator c"
    using 1(2) 2(2) assms(3) bracket_no_lineTerminator by auto
  ultimately show ?thesis
    using doubleBracketWrapped_iff by blast
qed

text \<open>
  C5, as amended. An entry passes the validity check if and only if it is a string that
  consists of two opening brackets, a body of one or more characters none of which is a
  line terminator, and two closing brackets. Only this outer wrapper is looked at: a
  link of that shape is rejected when text before it does not start with an opening
  bracket or text after it does not end with a closing bracket, and it is accepted
  again when the text around it begins with one link and ends with another on one line.
\<close>

theorem wikilink_entry_iff_wrapped:
  "(isWikilinkEntry v \<longleftrightarrow> (\<exists>s. v = JString s \<and> doubleBracketWrapped s))
   \<and> (\<forall>pre link post.
         doubleBracketWrapped link
         \<and> ((pre \<noteq> [] \<and> hd pre \<noteq> 0x5B) \<or> (post \<noteq> [] \<and> last post \<noteq> 0x5D))
         \<longrightarrow> \<not> isWikilinkEntry (JString (pre @ link @ post)))
   \<and> (\<forall>link1 mid link2.
         doubleBracketWrapped link1 \<and> doubleBracketWrapped link2
         \<and> list_all (\<lambda>c. \<not> lineTerminator c) mid
         \<longrightarrow> isWikilinkEntry (JString (link1 @ mid @ link2)))"
proof -
  have t: "regexp_test wikilinkPattern s \<longleftrightarrow> doubleBracketWrapped s" for s
    by (simp only: wikilinkPattern_iff doubleBracketWrapped_iff)
  have 1: "isWikilinkEntry v \<longleftrightarrow> (\<exists>s. v = JString s \<and> doubleBracketWrapped s)"
    by (cases v) (simp_all add: t)
  have 2: "\<not> isWikilinkEntry (JString (pre @ link @ post))"
    if w: "doubleBracketWrapped link"
      and o: "(pre \<noteq> [] \<and> hd pre \<noteq> 0x5B) \<or> (post \<noteq> [] \<and> last post \<noteq> 0x5D)"
    for pre link post
  proof
    assume "isWikilinkEntry (JString (pre @ link @ post))"
    then have "doubleBracketWrapped (pre @ link @ post)" by (simp add: t)
    then have e: "hd (pre @ link @ post) = 0x5B" "last (pre @ link @ post) = 0x5D"
      by (rule wrapped_ends)+
    from o show False
    proof
      assume "pre \<noteq> [] \<and> hd pre \<noteq> 0x5B"
      then show False using e(1) by simp
    next
      assume "post \<noteq> [] \<and> last post \<noteq> 0x5D"
      then show False using e(2) by simp
    qed
  qed
  have 3: "isWikilinkEntry (JString (link1 @ mid @ link2))"
    if "doubleBracketWrapped link1" "doubleBracketWrapped link2"
      "list_all (\<lambda>c. \<not> lineTerminator c) mid"
    for link1 mid link2
    using that link_text_link_wrapped[of link1 link2 mid] by (simp add: t list_all_iff)
  show ?thesis using 1 2 3 by blast
qed

theorem wikilink_entry_iff_wrapped_witness:
  "doubleBracketWrapped (lit ''[[Topic A]]'') \<and> isWikilinkEntry (JString (lit ''[[Topic A]]''))
   \<and> lit ''see '' \<noteq> [] \<and> hd (lit ''see '') \<noteq> 0x5B
   \<and> \<not> isWikilinkEntry (JString (lit ''see '' @ lit ''[[Topic A]]'' @ []))
   \<and> list_all (\<lambda>c. \<not> lineTerminator c) (lit '' and '')
   \<and> isWikilinkEntry (JString (lit ''[[Topic A]]'' @ lit '' and '' @ lit ''[[Topic A]]''))"
proof -
  have w: "doubleBracketWrapped (lit ''[[Topic A]]'')"
    by (simp add: doubleBracketWrapped_def outerWrapper_def wrapperBody_def lit_def
        lineTerminator_def)
  have p: "lit ''see '' \<noteq> [] \<and> hd (lit ''see '') \<noteq> 0x5B"
    by (simp add: lit_def)
  have b: "list_all (\<lambda>c. \<not> lineTerminator c) (lit '' and '')"
    by (simp add: lit_def lineTerminator_def)
  show ?thesis
    using w p b wikilink_entry_iff_wrapped[of "JString (lit ''[[Topic A]]'')"]
    by blast
qed

text \<open>
  C5 as stated fails in both directions. The string "[[A]] and [[B]]" is the link
  "[[A]]" followed by more text, a link embedded in larger text, and it passes the
  check. The string made of "[[a", a line feed and "b]]" has the outer wrapper and does
  not pass.
\<close>

theorem embedded_link_accepted_counterexample:
  "isWikilinkEntry (JString (lit ''[[A]]''))
   \<and> lit '' and [[B]]'' \<noteq> []
   \<and> isWikilinkEntry (JString (lit ''[[A]]'' @ lit '' and [[B]]''))
   \<and> outerWrapper (lit ''[[a'' @ [0x0A] @ lit ''b]]'')
   \<and> \<not> isWikilinkEntry (JString (lit ''[[a'' @ [0x0A] @ lit ''b]]''))"
  by (simp add: wikilinkPattern_def outerWrapper_def lit_def lineTerminator_def)

text \<open>
  Facts about \<open>split\<close>, \<open>lastIndexOf\<close> and \<open>substring\<close>, and the two extraction functions
  on a link whose body is \<open>bare\<close>.
\<close>

lemma split_not_Nil [simp]: "split s sep \<noteq> []"
  by (induction s) (auto split: list.splits)

lemma split_without_sep: "sep \<notin> set s \<Longrightarrow> split s sep = [s]"
  by (induction s) auto

lemma split_at_first_sep: "sep \<notin> set lhs \<Longrightarrow> split (lhs @ sep # rest) sep = lhs # split rest sep"
  by (induction lhs) auto

lemma split_first_field: "split s sep ! 0 = takeWhile (\<lambda>c. c \<noteq> sep) s"
proof (induction s)
  case Nil
  then show ?case by simp
next
  case (Cons c cs)
  then show ?case by (cases "split cs sep") auto
qed

lemma takeWhile_absent: "sep \<notin> set s \<Longrightarrow> takeWhile (\<lambda>c. c \<noteq> sep) s = s"
  by (induction s) auto

lemma takeWhile_until: "sep \<notin> set lhs \<Longrightarrow> takeWhile (\<lambda>c. c \<noteq> sep) (lhs @ sep # rest) = lhs"
  by (induction lhs) auto

lemma lastIndexOf_scan_absent: "c \<notin> set s \<Longrightarrow> lastIndexOf_scan s c pos found = found"
  by (induction s arbitrary: pos found) auto

lemma lastIndexOf_scan_last:
  "c \<notin> set suf \<Longrightarrow> lastIndexOf_scan (pre @ c # suf) c pos found = pos + int (length pre)"
  by (induction pre arbitrary: pos found) (auto simp: lastIndexOf_scan_absent)

lemma lastIndexOf_absent: "c \<notin> set s \<Longrightarrow> lastIndexOf s c = - 1"
  by (simp add: lastIndexOf_def lastIndexOf_scan_absent)

lemma lastIndexOf_last: "c \<notin> set suf \<Longrightarrow> lastIndexOf (pre @ c # suf) c = int (length pre)"
  by (simp add: lastIndexOf_def lastIndexOf_scan_last)

lemma substring_bare:
  "length l = 2 \<Longrightarrow> length r = 2 \<Longrightarrow>
   substring (l @ bare @ r) 2 (Some (int (length (l @ bare @ r)) - 2)) = bare"
  by (simp add: substring_def Let_def min_def max_def)

lemma substring_to_end: "0 \<le> i \<Longrightarrow> substring s i None = drop (nat i) s"
  by (auto simp: substring_def Let_def min_def max_def)

lemma after_last_slash:
  "(let i = lastIndexOf s 0x2F in if i = - 1 then s else substring s (i + 1) None) = finalSegment s"
proof (cases "0x2F \<in> set s")
  case False
  then have "0x2F \<notin> set (rev s)" by simp
  then have "takeWhile (\<lambda>c. c \<noteq> 0x2F) (rev s) = rev s"
    by (rule takeWhile_absent)
  then have "finalSegment s = s"
    unfolding finalSegment_def by (simp only: rev_rev_ident)
  then show ?thesis using False by (simp add: lastIndexOf_absent)
next
  case True
  then obtain pre suf where s: "s = pre @ 0x2F # suf" and suf: "0x2F \<notin> set suf"
    by (meson split_list_last)
  have i: "lastIndexOf s 0x2F = int (length pre)"
    using s suf by (simp add: lastIndexOf_last)
  have "0x2F \<notin> set (rev suf)" using suf by simp
  then have "takeWhile (\<lambda>c. c \<noteq> 0x2F) (rev suf @ 0x2F # rev pre) = rev suf"
    by (rule takeWhile_until)
  moreover have "rev s = rev suf @ 0x2F # rev pre" using s by simp
  ultimately have "finalSegment s = suf"
    unfolding finalSegment_def by (simp only: rev_rev_ident)
  moreover have "nat (int (length pre) + 1) = Suc (length pre)" by simp
  ultimately show ?thesis
    using i s by (simp add: substring_to_end Let_def)
qed

lemma takeWhile_twice:
  "takeWhile (\<lambda>c. c \<noteq> b) (takeWhile (\<lambda>c. c \<noteq> a) s) = takeWhile (\<lambda>c. c \<noteq> a \<and> c \<noteq> b) s"
  by (induction s) auto

lemma displayName_of_bare:
  assumes "wikilink = lit ''[['' @ bare @ lit '']]''"
  shows "extractDisplayNameFromWikilink wikilink =
           finalSegment (if length (split bare 0x7C) > 1 then split bare 0x7C ! 1 else split bare 0x7C ! 0)"
proof -
  have b: "substring wikilink 2 (Some (int (length wikilink) - 2)) = bare"
    unfolding assms by (rule substring_bare) simp_all
  show ?thesis
    unfolding extractDisplayNameFromWikilink_def b
    using after_last_slash by (simp add: Let_def)
qed

lemma internalPath_of_bare:
  assumes "wikilink = lit ''[['' @ bare @ lit '']]''"
  shows "extractInternalPathFromWikilink wikilink = withoutAnchor (takeWhile (\<lambda>c. c \<noteq> 0x7C) bare)"
proof -
  have b: "substring wikilink 2 (Some (int (length wikilink) - 2)) = bare"
    unfolding assms by (rule substring_bare) simp_all
  show ?thesis
    unfolding extractInternalPathFromWikilink_def b
    by (simp add: Let_def split_first_field takeWhile_twice withoutAnchor_def)
qed

text \<open>
  C7, as amended. For a link with body \<open>bare\<close>: without an alias separator the display
  name is the final segment of the body and the resolvable path is the body without its
  anchor. With an alias separator, the left-hand side is what precedes the first one:
  the display name is the final segment of the text between the first separator and the
  next one (all of the right-hand side when there is no other separator), and the
  resolvable path is the left-hand side without its anchor.
\<close>

theorem parse_wikilink:
  assumes "wikilink = lit ''[['' @ bare @ lit '']]''"
  shows "(0x7C \<notin> set bare \<longrightarrow>
            extractDisplayNameFromWikilink wikilink = finalSegment bare
          \<and> extractInternalPathFromWikilink wikilink = withoutAnchor bare)
       \<and> (\<forall>lhs rest. bare = lhs @ [0x7C] @ rest \<and> 0x7C \<notin> set lhs \<longrightarrow>
            extractDisplayNameFromWikilink wikilink
              = finalSegment (takeWhile (\<lambda>c. c \<noteq> 0x7C) rest)
          \<and> extractInternalPathFromWikilink wikilink = withoutAnchor lhs)
       \<and> (\<forall>lhs rhs. bare = lhs @ [0x7C] @ rhs \<and> 0x7C \<notin> set lhs \<and> 0x7C \<notin> set rhs \<longrightarrow>
            extractDisplayNameFromWikilink wikilink = finalSegment rhs)"
proof -
  have 1: "extractDisplayNameFromWikilink wikilink = finalSegment bare
          \<and> extractInternalPathFromWikilink wikilink = withoutAnchor bare" if "0x7C \<notin> set bare"
  proof -
    have tw: "takeWhile (\<lambda>c. c \<noteq> 0x7C) bare = bare"
      using that by (rule takeWhile_absent)
    have p: "extractInternalPathFromWikilink wikilink = withoutAnchor bare"
      using internalPath_of_bare[OF assms] unfolding tw .
    have "extractDisplayNameFromWikilink wikilink = finalSegment bare"
      using that displayName_of_bare[OF assms] by (simp add: split_without_sep)
    then show ?thesis using p by blast
  qed
  have 2: "extractDisplayNameFromWikilink wikilink = finalSegment (takeWhile (\<lambda>c. c \<noteq> 0x7C) rest)
          \<and> extractInternalPathFromWikilink wikilink = withoutAnchor lhs"
    if b: "bare = lhs @ [0x7C] @ rest" and l: "0x7C \<notin> set lhs" for lhs rest
  proof -
    have "split bare 0x7C = lhs # split rest 0x7C"
      using b l by (simp add: split_at_first_sep)
    moreover have "length (split rest 0x7C) > 0" by simp
    ultimately have d: "extractDisplayNameFromWikilink wikilink
        = finalSegment (takeWhile (\<lambda>c. c \<noteq> 0x7C) rest)"
      using displayName_of_bare[OF assms] by (simp add: split_first_field)
    have "takeWhile (\<lambda>c. c \<noteq> 0x7C) (lhs @ 0x7C # rest) = lhs"
      using l by (rule takeWhile_until)
    then have "extractInternalPathFromWikilink wikilink = withoutAnchor lhs"
      using b internalPath_of_bare[OF assms] by (simp only: append_Cons append_Nil)
    then show ?thesis using d by blast
  qed
  have 3: "extractDisplayNameFromWikilink wikilink = finalSegment rhs"
    if b: "bare = lhs @ [0x7C] @ rhs" and l: "0x7C \<notin> set lhs" and r: "0x7C \<notin> set rhs" for lhs rhs
  proof -
    have "takeWhile (\<lambda>c. c \<noteq> 0x7C) rhs = rhs"
      using r by (rule takeWhile_absent)
    then show ?thesis using 2[OF b l] by (simp only:)
  qed
  show ?thesis using 1 2 3 by blast
qed

theorem parse_wikilink_witness:
  "lit ''[[Folder/Topic A]]'' = lit ''[['' @ lit ''Folder/Topic A'' @ lit '']]''
   \<and> 0x7C \<notin> set (lit ''Folder/Topic A'')
   \<and> extractDisplayNameFromWikilink (lit ''[[Folder/Topic A]]'') = lit ''Topic A''
   \<and> extractInternalPathFromWikilink (lit ''[[Folder/Topic A]]'') = lit ''Folder/Topic A''
   \<and> lit ''[[Folder/Topic B#Heading|Custom Alias]]''
        = lit ''[['' @ lit ''Folder/Topic B#Heading|Custom Alias'' @ lit '']]''
   \<and> lit ''Folder/Topic B#Heading|Custom Alias''
        = lit ''Folder/Topic B#Heading'' @ [0x7C] @ lit ''Custom Alias''
   \<and> 0x7C \<notin> set (lit ''Folder/Topic B#Heading'') \<and> 0x7C \<notin> set (lit ''Custom Alias'')
   \<and> extractDisplayNameFromWikilink (lit ''[[Folder/Topic B#Heading|Custom Alias]]'') = lit ''Custom Alias''
   \<and> extractInternalPathFromWikilink (lit ''[[Folder/Topic B#Heading|Custom Alias]]'') = lit ''Folder/Topic B''
   \<and> lit ''[[x/a|y/b|c]]'' = lit ''[['' @ lit ''x/a|y/b|c'' @ lit '']]''
   \<and> lit ''x/a|y/b|c'' = lit ''x/a'' @ [0x7C] @ lit ''y/b|c''
   \<and> 0x7C \<notin> set (lit ''x/a'')
   \<and> extractDisplayNameFromWikilink (lit ''[[x/a|y/b|c]]'') = lit ''b''
   \<and> extractInternalPathFromWikilink (lit ''[[x/a|y/b|c]]'') = lit ''x/a''"
proof -
  have a1: "lit ''[[Folder/Topic A]]'' = lit ''[['' @ lit ''Folder/Topic A'' @ lit '']]''"
    by (simp add: lit_def)
  have a2: "0x7C \<notin> set (lit ''Folder/Topic A'')"
    by (simp add: lit_def)
  have a3: "finalSegment (lit ''Folder/Topic A'') = lit ''Topic A''"
    by (simp add: finalSegment_def lit_def)
  have a4: "withoutAnchor (lit ''Folder/Topic A'') = lit ''Folder/Topic A''"
    by (simp add: withoutAnchor_def lit_def)
  have b1: "lit ''[[Folder/Topic B#Heading|Custom Alias]]''
        = lit ''[['' @ lit ''Folder/Topic B#Heading|Custom Alias'' @ lit '']]''"
    by (simp add: lit_def)
  have b2: "lit ''Folder/Topic B#Heading|Custom Alias''
        = lit ''Folder/Topic B#Heading'' @ [0x7C] @ lit ''Custom Alias''"
    by (simp add: lit_def)
  have b3: "0x7C \<notin> set (lit ''Folder/Topic B#Heading'') \<and> 0x7C \<notin> set (lit ''Custom Alias'')"
    by (simp add: lit_def)
  have b4: "finalSegment (lit ''Custom Alias'') = lit ''Custom Alias''"
    by (simp add: finalSegment_def lit_def)
  have b5: "withoutAnchor (lit ''Folder/Topic B#Heading'') = lit ''Folder/Topic B''"
    by (simp add: withoutAnchor_def lit_def)
  have c1: "lit ''[[x/a|y/b|c]]'' = lit ''[['' @ lit ''x/a|y/b|c'' @ lit '']]''"
    by (simp add: lit_def)
  have c2: "lit ''x/a|y/b|c'' = lit ''x/a'' @ [0x7C] @ lit ''y/b|c''"
    by (simp add: lit_def)
  have c3: "0x7C \<notin> set (lit ''x/a'')"
    by (simp add: lit_def)
  have c4: "finalSegment (takeWhile (\<lambda>c. c \<noteq> 0x7C) (lit ''y/b|c'')) = lit ''b''"
    by (simp add: finalSegment_def lit_def)
  have c5: "withoutAnchor (lit ''x/a'') = lit ''x/a''"
    by (simp add: withoutAnchor_def lit_def)
  have A: "extractDisplayNameFromWikilink (lit ''[[Folder/Topic A]]'') = finalSegment (lit ''Folder/Topic A'')
         \<and> extractInternalPathFromWikilink (lit ''[[Folder/Topic A]]'') = withoutAnchor (lit ''Folder/Topic A'')"
    using parse_wikilink[OF a1] a2 by blast
  have B: "extractDisplayNameFromWikilink (lit ''[[Folder/Topic B#Heading|Custom Alias]]'')
           = finalSegment (lit ''Custom Alias'')"
    using parse_wikilink[OF b1] b2 b3 by blast
  have B': "extractInternalPathFromWikilink (lit ''[[Folder/Topic B#Heading|Custom Alias]]'')
           = withoutAnchor (lit ''Folder/Topic B#Heading'')"
    using parse_wikilink[OF b1] b2 b3 by blast
  have C: "extractDisplayNameFromWikilink (lit ''[[x/a|y/b|c]]'')
           = finalSegment (takeWhile (\<lambda>c. c \<noteq> 0x7C) (lit ''y/b|c''))
         \<and> extractInternalPathFromWikilink (lit ''[[x/a|y/b|c]]'') = withoutAnchor (lit ''x/a'')"
    using parse_wikilink[OF c1] c2 c3 by blast
  have r: "extractDisplayNameFromWikilink (lit ''[[Folder/Topic A]]'') = lit ''Topic A''"
    "extractInternalPathFromWikilink (lit ''[[Folder/Topic A]]'') = lit ''Folder/Topic A''"
    "extractDisplayNameFromWikilink (lit ''[[Folder/Topic B#Heading|Custom Alias]]'') = lit ''Custom Alias''"
    "extractInternalPathFromWikilink (lit ''[[Folder/Topic B#Heading|Custom Alias]]'') = lit ''Folder/Topic B''"
    "extractDisplayNameFromWikilink (lit ''[[x/a|y/b|c]]'') = lit ''b''"
    "extractInternalPathFromWikilink (lit ''[[x/a|y/b|c]]'') = lit ''x/a''"
    using A B B' C by (simp_all only: a3 a4 b4 b5 c4 c5)
  show ?thesis
    using a1 a2 b1 b2 b3 c1 c2 c3 r by blast
qed

text \<open>
  C7 as stated fails: the link "[[a|b|c]]" passes the validity check, the right-hand
  side of its alias separator is "b|c", which is its own final segment, and the display
  name is "b".
\<close>

theorem second_separator_counterexample:
  "isWikilinkEntry (JString (lit ''[[a|b|c]]''))
   \<and> lit ''[[a|b|c]]'' = lit ''[['' @ lit ''a'' @ [0x7C] @ lit ''b|c'' @ lit '']]''
   \<and> 0x7C \<notin> set (lit ''a'')
   \<and> finalSegment (lit ''b|c'') = lit ''b|c''
   \<and> extractDisplayNameFromWikilink (lit ''[[a|b|c]]'') = lit ''b''
   \<and> lit ''b'' \<noteq> lit ''b|c''"
  by (simp add: wikilinkPattern_def lineTerminator_def finalSegment_def
      extractDisplayNameFromWikilink_def substring_def lastIndexOf_def lit_def Let_def)

section \<open>Properties of the jump command\<close>

text \<open>
  As long as no entry's conversion to a string throws, the loop over the entries keeps
  the valid strings in order, raises the flag when an entry fails the test, and logs
  one record for each such entry.
\<close>

lemma scanEntries_result:
  assumes "\<forall>x \<in> set xs. \<not> toString_throws x"
  shows "scanEntries key base xs (valid, found, console) =
     Inr (valid @ concat (map (\<lambda>x. case x of JString s \<Rightarrow> if isWikilinkEntry x then [s] else [] | _ \<Rightarrow> []) xs),
          found \<or> \<not> list_all isWikilinkEntry xs,
          console @ map (\<lambda>x. ConsoleError (InvalidEntryRecord key x base))
                        (filter (\<lambda>x. \<not> isWikilinkEntry x) xs))"
  using assms
proof (induction xs arbitrary: valid found console)
  case Nil
  then show ?case by simp
next
  case (Cons x xs)
  then show ?case by (cases x) simp_all
qed

lemma scanEntries_all_valid:
  assumes "\<forall>l \<in> set links. regexp_test wikilinkPattern l"
  shows "scanEntries key base (map JString links) ([], False, []) = Inr (links, False, [])"
proof -
  have 0: "\<forall>x \<in> set (map JString links). \<not> toString_throws x"
    by auto
  have 1: "concat (map (\<lambda>x. case x of JString s \<Rightarrow> if isWikilinkEntry x then [s] else [] | _ \<Rightarrow> [])
             (map JString links)) = links"
    using assms by (induction links) auto
  have 2: "list_all isWikilinkEntry (map JString links)"
    using assms by (induction links) auto
  have 3: "filter (\<lambda>x. \<not> isWikilinkEntry x) (map JString links) = []"
    using assms by (induction links) auto
  show ?thesis
    unfolding scanEntries_result[OF 0] by (simp only: 1 2 3) simp
qed

lemma notices_append [simp]: "notices (xs @ ys) = notices xs @ notices ys"
  by (simp add: notices_def)

lemma navigationAttempts_append [simp]:
  "navigationAttempts (xs @ ys) = navigationAttempts xs @ navigationAttempts ys"
  by (simp add: navigationAttempts_def)

lemma notices_console [simp]: "notices (map (\<lambda>x. ConsoleError (g x)) xs) = []"
  by (induction xs) (simp_all add: notices_def)

lemma navigationAttempts_console [simp]: "navigationAttempts (map (\<lambda>x. ConsoleError (g x)) xs) = []"
  by (induction xs) (simp_all add: navigationAttempts_def)

lemma navigationAttempts_navigateToLink:
  "navigationAttempts (navigateToLink a l src) = [(extractInternalPathFromWikilink l, src)]"
  by (simp add: navigateToLink_def navigationAttempts_def Let_def split: option.split)

text \<open>
  When the header field is a list with an entry that fails the validity check, and
  every entry can be converted to a string, the command shows exactly one notice, the
  warning about invalid entries, makes no navigation attempt and opens no modal.
\<close>

lemma invalid_entries_fail_fast:
  assumes "getActiveFile a = Some f" and "getFileCache a f = Some fc" and "frontmatter fc = Some fm"
    and "property fm (topicProperty settings) = JArray entries"
    and "\<exists>e \<in> set entries. \<not> isWikilinkEntry e"
    and "\<forall>e \<in> set entries. \<not> toString_throws e"
  shows "notices (effects (executeJumpLogic a settings)) = [InvalidEntriesNotice (topicProperty settings)]
       \<and> navigationAttempts (effects (executeJumpLogic a settings)) = []
       \<and> opened (executeJumpLogic a settings) = None
       \<and> thrown (executeJumpLogic a settings) = None"
proof -
  have ne: "entries \<noteq> []" using assms(5) by auto
  have bad: "\<not> list_all isWikilinkEntry entries" using assms(5) by (simp add: list_all_iff)
  have r: "executeJumpLogic a settings =
        \<lparr> effects = map (\<lambda>x. ConsoleError (InvalidEntryRecord (topicProperty settings) x (basename f)))
                        (filter (\<lambda>x. \<not> isWikilinkEntry x) entries)
                    @ [Notice (InvalidEntriesNotice (topicProperty settings))],
          opened = None, thrown = None \<rparr>"
    using assms(1-4) ne bad
    by (simp add: executeJumpLogic_def scanEntries_result[OF assms(6)] Let_def)
  show ?thesis unfolding r by (simp add: notices_def navigationAttempts_def)
qed

text \<open>
  C4 is not what the code does on every list. The header
  \<^verbatim>\<open>parents: ["[[A]]", {toString: 1}]\<close> is a list whose second entry is no string, so
  it fails the validity check. Building the console record for it (line 157) converts
  the entry to a string, which throws: the run ends with a \<open>TypeError\<close> before the
  notice of line 164, and no notice is shown at all, where C4 has exactly one.
\<close>

theorem object_entry_throws_before_notice:
  "property [(lit ''parents'', JArray [JString (lit ''[[A]]''), JObject [(lit ''toString'', JNumber 1)]])]
       (topicProperty DEFAULT_SETTINGS)
     = JArray [JString (lit ''[[A]]''), JObject [(lit ''toString'', JNumber 1)]]
   \<and> \<not> isWikilinkEntry (JObject [(lit ''toString'', JNumber 1)])
   \<and> executeJumpLogic
        (exampleApp [(lit ''parents'',
                      JArray [JString (lit ''[[A]]''), JObject [(lit ''toString'', JNumber 1)]])])
        DEFAULT_SETTINGS
     = \<lparr> effects = [], opened = None, thrown = Some TypeError \<rparr>
   \<and> notices (effects (executeJumpLogic
        (exampleApp [(lit ''parents'',
                      JArray [JString (lit ''[[A]]''), JObject [(lit ''toString'', JNumber 1)]])])
        DEFAULT_SETTINGS)) = []"
  by (simp add: executeJumpLogic_def exampleApp_def DEFAULT_SETTINGS_def property_def
      wikilinkPattern_def lineTerminator_def lit_def notices_def Let_def)

text \<open>
  The command does nothing at all (no notice, no console record, no navigation attempt,
  no modal, no error) when there is no active file, no file cache or no front matter,
  and when the header field is null, the empty list, or missing under a name that is no
  member of \<open>Object.prototype\<close>.
\<close>

lemma absent_or_empty_is_noop:
  assumes "\<And>f fc fm.
      getActiveFile a = Some f \<Longrightarrow> getFileCache a f = Some fc \<Longrightarrow> frontmatter fc = Some fm \<Longrightarrow>
        (map_of fm (topicProperty settings) = None
           \<and> objectPrototypeMember (topicProperty settings) = None)
        \<or> property fm (topicProperty settings) = JNull
        \<or> property fm (topicProperty settings) = JArray []"
  shows "executeJumpLogic a settings = nothing"
proof (cases "getActiveFile a")
  case None
  then show ?thesis by (simp add: executeJumpLogic_def)
next
  case (Some f)
  show ?thesis
  proof (cases "getFileCache a f")
    case None
    then show ?thesis using Some by (simp add: executeJumpLogic_def)
  next
    case fc: (Some fc)
    show ?thesis
    proof (cases "frontmatter fc")
      case None
      then show ?thesis using Some fc by (simp add: executeJumpLogic_def)
    next
      case fm: (Some fm)
      have "property fm (topicProperty settings) = JUndefined
          \<or> property fm (topicProperty settings) = JNull
          \<or> property fm (topicProperty settings) = JArray []"
        using assms[OF Some fc fm] by (auto simp: property_def)
      then show ?thesis
        using Some fc fm by (auto simp: executeJumpLogic_def Let_def)
    qed
  qed
qed

text \<open>
  C9 is not what the code does for every field name. With the field name set to
  "constructor" and a header that has no such field, line 122 reads the member of that
  name inherited from \<open>Object.prototype\<close>, a function: it is neither \<open>undefined\<close> nor
  \<open>null\<close> nor an array, so the command shows the notice that the property is no list and
  logs a record, where C9 has a run without any effect.
\<close>

theorem inherited_member_read_as_field:
  "map_of [(lit ''title'', JString (lit ''Note''))] (lit ''constructor'') = None
   \<and> executeJumpLogic (exampleApp [(lit ''title'', JString (lit ''Note''))])
        \<lparr> topicProperty = lit ''constructor'' \<rparr>
     = \<lparr> effects = [Notice (NotAListNotice (lit ''constructor'') (lit ''child'')),
                    ConsoleError (NotAListRecord (lit ''constructor'') (lit ''notes/child.md'') JFunction)],
         opened = None, thrown = None \<rparr>
   \<and> notices (effects (executeJumpLogic (exampleApp [(lit ''title'', JString (lit ''Note''))])
        \<lparr> topicProperty = lit ''constructor'' \<rparr>))
     = [NotAListNotice (lit ''constructor'') (lit ''child'')]"
  by (simp add: executeJumpLogic_def exampleApp_def exampleFile_def property_def
      objectPrototypeMember_def lit_def notices_def Let_def)

text \<open>
  C6. When every entry of the header list is a valid link: with exactly one link the
  command navigates to it directly (it resolves the link's path from the note's path)
  and opens no modal; with two or more it has no effect of its own and opens a modal
  titled "Select superior topic note" whose items and rows carry the parsed display
  names in the order of the list, and a click on row \<open>k\<close> calls the callback once, with
  item \<open>k\<close>, on which the callback navigates to the path of link \<open>k\<close>.
\<close>

theorem one_link_direct_many_links_picker:
  assumes "getActiveFile a = Some f" and "getFileCache a f = Some fc" and "frontmatter fc = Some fm"
    and "property fm (topicProperty settings) = JArray (map JString links)"
    and "\<forall>l \<in> set links. regexp_test wikilinkPattern l"
  shows "(length links = 1 \<longrightarrow>
            effects (executeJumpLogic a settings) = navigateToLink a (links ! 0) (path f)
          \<and> navigationAttempts (effects (executeJumpLogic a settings))
              = [(extractInternalPathFromWikilink (links ! 0), path f)]
          \<and> opened (executeJumpLogic a settings) = None)
       \<and> (length links \<ge> 2 \<longrightarrow>
            effects (executeJumpLogic a settings) = []
          \<and> (\<exists>p. opened (executeJumpLogic a settings) = Some p
               \<and> isOpen (modal p)
               \<and> modalTitle (modal p) = lit ''Select superior topic note''
               \<and> heading (modal p) = Some (lit ''Select superior topic note'')
               \<and> map name (items (modal p)) = map extractDisplayNameFromWikilink links
               \<and> map linkText (items (modal p)) = links
               \<and> map textContent (itemElements (modal p)) = map extractDisplayNameFromWikilink links
               \<and> (\<forall>k < length links.
                     callbackCalls (fire (modal p) (Click k)) = [items (modal p) ! k]
                   \<and> callback p (items (modal p) ! k) = navigateToLink a (links ! k) (path f)
                   \<and> navigationAttempts (callback p (items (modal p) ! k))
                       = [(extractInternalPathFromWikilink (links ! k), path f)])))"
proof -
  note scan = scanEntries_all_valid[OF assms(5), of "topicProperty settings" "basename f"]
  have one: "effects (executeJumpLogic a settings) = navigateToLink a (links ! 0) (path f)
          \<and> navigationAttempts (effects (executeJumpLogic a settings))
              = [(extractInternalPathFromWikilink (links ! 0), path f)]
          \<and> opened (executeJumpLogic a settings) = None" if "length links = 1"
  proof -
    have "executeJumpLogic a settings
            = \<lparr> effects = navigateToLink a (links ! 0) (path f), opened = None, thrown = None \<rparr>"
      using assms(1-4) that scan by (auto simp: executeJumpLogic_def Let_def)
    then show ?thesis by (simp add: navigationAttempts_navigateToLink)
  qed
  have many: "effects (executeJumpLogic a settings) = []
          \<and> (\<exists>p. opened (executeJumpLogic a settings) = Some p
               \<and> isOpen (modal p)
               \<and> modalTitle (modal p) = lit ''Select superior topic note''
               \<and> heading (modal p) = Some (lit ''Select superior topic note'')
               \<and> map name (items (modal p)) = map extractDisplayNameFromWikilink links
               \<and> map linkText (items (modal p)) = links
               \<and> map textContent (itemElements (modal p)) = map extractDisplayNameFromWikilink links
               \<and> (\<forall>k < length links.
                     callbackCalls (fire (modal p) (Click k)) = [items (modal p) ! k]
                   \<and> callback p (items (modal p) ! k) = navigateToLink a (links ! k) (path f)
                   \<and> navigationAttempts (callback p (items (modal p) ! k))
                       = [(extractInternalPathFromWikilink (links ! k), path f)]))" if "length links \<ge> 2"
  proof -
    let ?its = "map (\<lambda>link. \<lparr> name = extractDisplayNameFromWikilink link, linkText = link \<rparr>) links"
    let ?m = "open_modal (new_SelectableModal ?its (lit ''Select superior topic note''))"
    let ?p = "\<lparr> modal = ?m, callback = (\<lambda>selectedItem. navigateToLink a (linkText selectedItem) (path f)) \<rparr>"
    have ne: "links \<noteq> []" using that by auto
    have r: "executeJumpLogic a settings = \<lparr> effects = [], opened = Some ?p, thrown = None \<rparr>"
      using assms(1-4) that scan ne by (simp add: executeJumpLogic_def Let_def)
    have m: "isOpen ?m" "modalTitle ?m = lit ''Select superior topic note''"
      "heading ?m = Some (lit ''Select superior topic note'')" "items ?m = ?its"
      "length (itemElements ?m) = length links"
      "map textContent (itemElements ?m) = map extractDisplayNameFromWikilink links"
      "callbackCalls ?m = []"
      using ne
      by (simp_all add: open_modal_def onOpen_def new_SelectableModal_def Let_def comp_def)
    have click: "callbackCalls (fire ?m (Click k)) = [items ?m ! k]" if "k < length links" for k
      using that m by (simp add: fire_def selectItem_def)
    have cb: "callback ?p (items ?m ! k) = navigateToLink a (links ! k) (path f)" if "k < length links" for k
      using that m(4) by simp
    show ?thesis
      unfolding r using m click cb
      by (simp add: navigationAttempts_navigateToLink comp_def)
  qed
  show ?thesis using one many by blast
qed

theorem one_link_direct_many_links_picker_witness:
  "getActiveFile (exampleApp [(lit ''parents'', JArray (map JString [lit ''[[Only Parent]]'']))]) = Some exampleFile
   \<and> list_all (regexp_test wikilinkPattern) [lit ''[[Only Parent]]'']
   \<and> length [lit ''[[Only Parent]]''] = 1
   \<and> effects (executeJumpLogic
         (exampleApp [(lit ''parents'', JArray (map JString [lit ''[[Only Parent]]'']))]) DEFAULT_SETTINGS)
       = [LinkpathDest (lit ''Only Parent'') (path exampleFile),
          OpenFile \<lparr> path = lit ''Only Parent.md'', basename = lit ''Only Parent'' \<rparr>]
   \<and> navigationAttempts (effects (executeJumpLogic
         (exampleApp [(lit ''parents'', JArray (map JString [lit ''[[Only Parent]]'']))]) DEFAULT_SETTINGS))
       = [(lit ''Only Parent'', path exampleFile)]
   \<and> opened (executeJumpLogic
         (exampleApp [(lit ''parents'', JArray (map JString [lit ''[[Only Parent]]'']))]) DEFAULT_SETTINGS) = None
   \<and> list_all (regexp_test wikilinkPattern) [lit ''[[A]]'', lit ''[[B]]'']
   \<and> length [lit ''[[A]]'', lit ''[[B]]''] \<ge> 2
   \<and> effects (executeJumpLogic
         (exampleApp [(lit ''parents'', JArray (map JString [lit ''[[A]]'', lit ''[[B]]'']))]) DEFAULT_SETTINGS) = []
   \<and> (\<exists>p. opened (executeJumpLogic
               (exampleApp [(lit ''parents'', JArray (map JString [lit ''[[A]]'', lit ''[[B]]'']))])
               DEFAULT_SETTINGS) = Some p
          \<and> isOpen (modal p)
          \<and> modalTitle (modal p) = lit ''Select superior topic note''
          \<and> map name (items (modal p)) = [lit ''A'', lit ''B'']
          \<and> map textContent (itemElements (modal p)) = [lit ''A'', lit ''B'']
          \<and> callbackCalls (fire (modal p) (Click 1)) = [items (modal p) ! 1]
          \<and> navigationAttempts (callback p (items (modal p) ! 1)) = [(lit ''B'', path exampleFile)])"
proof -
  let ?one = "[lit ''[[Only Parent]]'']"
  let ?two = "[lit ''[[A]]'', lit ''[[B]]'']"
  let ?fm1 = "[(lit ''parents'', JArray (map JString ?one))]"
  let ?fm2 = "[(lit ''parents'', JArray (map JString ?two))]"
  have f1: "getActiveFile (exampleApp ?fm1) = Some exampleFile"
    and f2: "getActiveFile (exampleApp ?fm2) = Some exampleFile"
    by (simp_all add: exampleApp_def)
  have c1: "getFileCache (exampleApp ?fm1) exampleFile = Some \<lparr> frontmatter = Some ?fm1 \<rparr>"
    and c2: "getFileCache (exampleApp ?fm2) exampleFile = Some \<lparr> frontmatter = Some ?fm2 \<rparr>"
    by (simp_all add: exampleApp_def)
  have m1: "frontmatter \<lparr> frontmatter = Some ?fm1 \<rparr> = Some ?fm1"
    and m2: "frontmatter \<lparr> frontmatter = Some ?fm2 \<rparr> = Some ?fm2"
    by simp_all
  have p1: "property ?fm1 (topicProperty DEFAULT_SETTINGS) = JArray (map JString ?one)"
    and p2: "property ?fm2 (topicProperty DEFAULT_SETTINGS) = JArray (map JString ?two)"
    by (simp_all add: property_def DEFAULT_SETTINGS_def)
  have v1: "\<forall>l \<in> set ?one. regexp_test wikilinkPattern l"
    and v2: "\<forall>l \<in> set ?two. regexp_test wikilinkPattern l"
    by (simp_all add: wikilinkPattern_def lit_def lineTerminator_def)
  have e: "extractInternalPathFromWikilink (lit ''[[Only Parent]]'') = lit ''Only Parent''"
    "extractInternalPathFromWikilink (lit ''[[B]]'') = lit ''B''"
    "extractDisplayNameFromWikilink (lit ''[[A]]'') = lit ''A''"
    "extractDisplayNameFromWikilink (lit ''[[B]]'') = lit ''B''"
    by (simp_all add: extractInternalPathFromWikilink_def extractDisplayNameFromWikilink_def
        substring_def lastIndexOf_def lit_def Let_def)
  have w1: "list_all (regexp_test wikilinkPattern) ?one"
    and w2: "list_all (regexp_test wikilinkPattern) ?two"
    using v1 v2 by (simp_all only: list_all_iff)
  have l1: "length ?one = 1" and l2: "length ?two \<ge> 2"
    by simp_all
  note one = one_link_direct_many_links_picker[OF f1 c1 m1 p1 v1, THEN conjunct1, THEN mp, OF l1]
  note two = one_link_direct_many_links_picker[OF f2 c2 m2 p2 v2, THEN conjunct2, THEN mp, OF l2]
  have n: "navigateToLink (exampleApp ?fm1) (lit ''[[Only Parent]]'') (path exampleFile)
       = [LinkpathDest (lit ''Only Parent'') (path exampleFile),
          OpenFile \<lparr> path = lit ''Only Parent.md'', basename = lit ''Only Parent'' \<rparr>]"
    by (simp add: navigateToLink_def e(1) exampleApp_def Let_def)
  have r0: "effects (executeJumpLogic (exampleApp ?fm1) DEFAULT_SETTINGS)
       = [LinkpathDest (lit ''Only Parent'') (path exampleFile),
          OpenFile \<lparr> path = lit ''Only Parent.md'', basename = lit ''Only Parent'' \<rparr>]"
    using one n by simp
  have r1: "navigationAttempts (effects (executeJumpLogic (exampleApp ?fm1) DEFAULT_SETTINGS))
       = [(lit ''Only Parent'', path exampleFile)]
     \<and> opened (executeJumpLogic (exampleApp ?fm1) DEFAULT_SETTINGS) = None"
    using one e(1) by auto
  from two obtain p where p:
    "effects (executeJumpLogic (exampleApp ?fm2) DEFAULT_SETTINGS) = []"
    "opened (executeJumpLogic (exampleApp ?fm2) DEFAULT_SETTINGS) = Some p"
    "isOpen (modal p)"
    "modalTitle (modal p) = lit ''Select superior topic note''"
    "map name (items (modal p)) = map extractDisplayNameFromWikilink ?two"
    "map textContent (itemElements (modal p)) = map extractDisplayNameFromWikilink ?two"
    "\<forall>k < length ?two.
        callbackCalls (fire (modal p) (Click k)) = [items (modal p) ! k]
      \<and> callback p (items (modal p) ! k) = navigateToLink (exampleApp ?fm2) (?two ! k) (path exampleFile)
      \<and> navigationAttempts (callback p (items (modal p) ! k))
          = [(extractInternalPathFromWikilink (?two ! k), path exampleFile)]"
    by blast
  have k: "callbackCalls (fire (modal p) (Click 1)) = [items (modal p) ! 1]
         \<and> navigationAttempts (callback p (items (modal p) ! 1)) = [(lit ''B'', path exampleFile)]"
    using p(7) e(2) by auto
  have r2: "\<exists>p. opened (executeJumpLogic (exampleApp ?fm2) DEFAULT_SETTINGS) = Some p
          \<and> isOpen (modal p)
          \<and> modalTitle (modal p) = lit ''Select superior topic note''
          \<and> map name (items (modal p)) = [lit ''A'', lit ''B'']
          \<and> map textContent (itemElements (modal p)) = [lit ''A'', lit ''B'']
          \<and> callbackCalls (fire (modal p) (Click 1)) = [items (modal p) ! 1]
          \<and> navigationAttempts (callback p (items (modal p) ! 1)) = [(lit ''B'', path exampleFile)]"
    using p(2-6) k e(3,4) by (intro exI[of _ p]) simp
  show ?thesis
    using f1 w1 w2 l1 l2 r0 r1 p(1) r2 by blast
qed

end
